theory Spec2Isabelle
  imports Complex_Main "HOL-Library.Multiset"
begin

section \<open>JSON payloads\<close>

text \<open>
  The program reads JSON objects through \<^verbatim>\<open>dict.get\<close>. A key of an object is absent,
  present with the value \<^verbatim>\<open>null\<close>, or present with a value. \<^verbatim>\<open>d.get(k)\<close> gives
  \<^verbatim>\<open>None\<close> in the first two cases; \<^verbatim>\<open>d.get(k, default)\<close> gives the default only
  when the key is absent. A Python value that may be \<^verbatim>\<open>None\<close> is an \<open>option\<close>.

  The records below are JSON objects, of which only the keys the program reads are kept;
  values have the types the providers document (strings, lists of objects). The program
  tests the metadata of a paper for emptiness (\<^verbatim>\<open>if not paper_data\<close>), so that record
  also tells whether the object has keys besides the ones read.
\<close>

datatype 'a field = Absent | Null | Val 'a

definition get :: "'a field \<Rightarrow> 'a option" where
  "get f = (case f of Val v \<Rightarrow> Some v | _ \<Rightarrow> None)"

definition get_or :: "'a field \<Rightarrow> 'a \<Rightarrow> 'a option" where
  "get_or f d = (case f of Absent \<Rightarrow> Some d | Null \<Rightarrow> None | Val v \<Rightarrow> Some v)"

text \<open>Python truthiness of an optional string and of an optional list.\<close>

definition truthy :: "'a list option \<Rightarrow> bool" where
  "truthy v = (case v of None \<Rightarrow> False | Some s \<Rightarrow> s \<noteq> [])"

datatype exn = AttributeError | TypeError | ClientError | JSONError | OSError

record external_ids =
  ArXiv :: "string field"
  DOI :: "string field"

record open_access_pdf =
  oa_url :: "string field"
  oa_status :: "string field"

record author =
  au_name :: "string field"

record paper_ref =
  ref_paperId :: "string field"

record paper_data =
  paperId :: "string field"
  title :: "string field"
  year :: "int field"
  url :: "string field"
  authors :: "author list field"
  externalIds :: "external_ids field"
  openAccessPdf :: "open_access_pdf field"
  references :: "paper_ref list field"
  citations :: "paper_ref list field"
  saved_filename :: "string field"
  other_keys :: bool

record unpaywall_location =
  url_for_pdf :: "string field"

record unpaywall_data =
  best_oa_location :: "unpaywall_location field"

record core_work =
  downloadUrl :: "string field"

record core_data =
  results :: "core_work list field"

text \<open>
  What \<^verbatim>\<open>await response.json()\<close> yields: it raises on a body that is not JSON, and a JSON
  value that is not an object (a list, a string, \<^verbatim>\<open>null\<close>) has no \<^verbatim>\<open>get\<close>. An object
  of another provider's shape is an object in which the keys asked for are absent.
\<close>

datatype json_body =
  NotJson
  | NonObject
  | PaperDoc paper_data
  | UnpaywallDoc unpaywall_data
  | CoreDoc core_data

text \<open>An object with none of the keys read, and the empty object \<^verbatim>\<open>{}\<close>.\<close>

definition no_paper_keys :: paper_data where
  "no_paper_keys = \<lparr>paperId = Absent, title = Absent, year = Absent, url = Absent,
     authors = Absent, externalIds = Absent, openAccessPdf = Absent, references = Absent,
     citations = Absent, saved_filename = Absent, other_keys = True\<rparr>"

definition empty_dict :: paper_data where
  "empty_dict = no_paper_keys\<lparr>other_keys := False\<rparr>"

definition as_paper :: "json_body \<Rightarrow> exn + paper_data" where
  "as_paper b = (case b of
       NotJson \<Rightarrow> Inl JSONError
     | NonObject \<Rightarrow> Inl AttributeError
     | PaperDoc pd \<Rightarrow> Inr pd
     | UnpaywallDoc _ \<Rightarrow> Inr no_paper_keys
     | CoreDoc _ \<Rightarrow> Inr no_paper_keys)"

definition as_unpaywall :: "json_body \<Rightarrow> exn + unpaywall_data" where
  "as_unpaywall b = (case b of
       NotJson \<Rightarrow> Inl JSONError
     | NonObject \<Rightarrow> Inl AttributeError
     | UnpaywallDoc u \<Rightarrow> Inr u
     | PaperDoc _ \<Rightarrow> Inr \<lparr>best_oa_location = Absent\<rparr>
     | CoreDoc _ \<Rightarrow> Inr \<lparr>best_oa_location = Absent\<rparr>)"

definition as_core :: "json_body \<Rightarrow> exn + core_data" where
  "as_core b = (case b of
       NotJson \<Rightarrow> Inl JSONError
     | NonObject \<Rightarrow> Inl AttributeError
     | CoreDoc c \<Rightarrow> Inr c
     | PaperDoc _ \<Rightarrow> Inr \<lparr>results = Absent\<rparr>
     | UnpaywallDoc _ \<Rightarrow> Inr \<lparr>results = Absent\<rparr>)"

section \<open>The world outside the program: network, clock and disk\<close>

record request =
  req_url :: string
  req_params :: "(string \<times> string) list"
  req_headers :: "(string \<times> string) list"

record response =
  status :: int
  content_disposition :: "string option"
  url_path :: string
  json :: json_body
  content :: "string option"

text \<open>
  \<^verbatim>\<open>session.get\<close> either raises (connection error, timeout) or gives a response. A
  response whose body cannot be read has \<open>content = None\<close>.
\<close>

datatype http_result = Raises | Responds response

datatype event = Get request | Sleep real | Write string

text \<open>
  The network is an oracle: the answer to a request may depend on how many requests were
  issued before it, and comes after some elapsed time. \<open>files\<close> are the regular files
  on disk with their contents, \<open>dirs\<close> the paths that name a directory, \<open>writable\<close> tells
  whether opening a path for writing succeeds. \<open>trace\<close> records what the program did to
  the world, in order.
\<close>

record world =
  net :: "nat \<Rightarrow> request \<Rightarrow> real \<times> http_result"
  clock :: real
  files :: "(string \<times> string) list"
  dirs :: "string list"
  writable :: "string \<Rightarrow> bool"
  trace :: "event list"

fun is_get :: "event \<Rightarrow> bool" where
  "is_get (Get _) = True"
| "is_get _ = False"

definition issued :: "world \<Rightarrow> nat" where
  "issued w = length (filter is_get (trace w))"

definition http_get :: "world \<Rightarrow> request \<Rightarrow> http_result \<times> world" where
  "http_get w r =
     (let (dt, res) = net w (issued w) r
      in (res, w\<lparr>clock := clock w + dt, trace := trace w @ [Get r]\<rparr>))"

definition sleep :: "world \<Rightarrow> real \<Rightarrow> world" where
  "sleep w d = w\<lparr>clock := clock w + d, trace := trace w @ [Sleep d]\<rparr>"

section \<open>PaperFetcher\<close>

record PaperFetcher =
  base_url :: string
  headers :: "(string \<times> string) list"
  output_dir :: string
  visited_papers :: "string set"
  rate_limit :: nat
  request_interval :: real
  last_request_time :: real

definition init :: "string \<Rightarrow> string option \<Rightarrow> PaperFetcher" where
  "init out api_key =
     \<lparr>base_url = ''https://api.semanticscholar.org/graph/v1/paper/'',
      headers = (case api_key of
                   None \<Rightarrow> []
                 | Some k \<Rightarrow> if k = [] then [] else [(''x-api-key'', k)]),
      output_dir = out,
      visited_papers = {},
      rate_limit = 3,
      request_interval = 2,
      last_request_time = 0\<rparr>"

definition wait_for_rate_limit :: "PaperFetcher \<Rightarrow> world \<Rightarrow> PaperFetcher \<times> world" where
  "wait_for_rate_limit self w =
     (let now = clock w;
          w1 = (if now - last_request_time self < request_interval self
                then sleep w (request_interval self - (now - last_request_time self))
                else w)
      in (self\<lparr>last_request_time := clock w1\<rparr>, w1))"

subsection \<open>fetch_paper_details\<close>

definition details_request :: "PaperFetcher \<Rightarrow> string \<Rightarrow> request" where
  "details_request self paper_id =
     \<lparr>req_url = base_url self @ paper_id,
      req_params = [(''fields'',
         ''title,year,authors,citations,references,externalIds,url,openAccessPdf'')],
      req_headers = headers self\<rparr>"

text \<open>
  The loop \<^verbatim>\<open>for attempt in range(retries)\<close> runs over the list of attempt numbers. The
  semaphore is taken on entry and given back on exit; within one task it leaves no trace
  (its contention between tasks is the subject of the last section).
\<close>

fun fetch_attempts ::
  "PaperFetcher \<Rightarrow> world \<Rightarrow> string \<Rightarrow> int \<Rightarrow> nat list
     \<Rightarrow> paper_data option \<times> PaperFetcher \<times> world" where
  "fetch_attempts self w paper_id retries [] = (None, self, w)"
| "fetch_attempts self w paper_id retries (attempt # rest) =
     (let (self1, w1) = wait_for_rate_limit self w;
          (res, w2) = http_get w1 (details_request self1 paper_id);
          on_exception =
            (if int attempt < retries - 1
             then fetch_attempts self1 (sleep w2 1) paper_id retries rest
             else (None, self1, w2))
      in case res of
           Raises \<Rightarrow> on_exception
         | Responds r \<Rightarrow>
             if status r = 200 then
               (case as_paper (json r) of
                  Inl e \<Rightarrow> on_exception
                | Inr data \<Rightarrow> (Some data, self1, w2))
             else if status r = 429 then
               fetch_attempts self1 (sleep w2 (5 * (real attempt + 1))) paper_id retries rest
             else (None, self1, w2))"

definition fetch_paper_details ::
  "PaperFetcher \<Rightarrow> world \<Rightarrow> string \<Rightarrow> int
     \<Rightarrow> paper_data option \<times> PaperFetcher \<times> world" where
  "fetch_paper_details self w paper_id retries =
     fetch_attempts self w paper_id retries [0 ..< nat retries]"

text \<open>What \<open>wait_for_rate_limit\<close> adds to the trace: the sleep it decides on, if any.\<close>

definition rate_wait :: "PaperFetcher \<Rightarrow> world \<Rightarrow> event list" where
  "rate_wait self w =
     (if clock w - last_request_time self < request_interval self
      then [Sleep (request_interval self - (clock w - last_request_time self))] else [])"

text \<open>The fetcher and the world after an attempt that was answered 429 (lines 167-180).\<close>

definition after_429 ::
  "PaperFetcher \<Rightarrow> world \<Rightarrow> string \<Rightarrow> nat \<Rightarrow> PaperFetcher \<times> world" where
  "after_429 self w p k =
     (let (self1, w1) = wait_for_rate_limit self w;
          (res, w2) = http_get w1 (details_request self1 p)
      in (self1, sleep w2 (5 * (real k + 1))))"

subsection \<open>try_alternative_sources\<close>

definition get_request :: "string \<Rightarrow> request" where
  "get_request u = \<lparr>req_url = u, req_params = [], req_headers = []\<rparr>"

text \<open>\<^verbatim>\<open>paper_data.get('externalIds', {}).get(k)\<close>: a \<^verbatim>\<open>null\<close> has no \<^verbatim>\<open>get\<close>.\<close>

definition external_id ::
  "paper_data \<Rightarrow> (external_ids \<Rightarrow> string field) \<Rightarrow> exn + string option" where
  "external_id pd k =
     (case get_or (externalIds pd) \<lparr>ArXiv = Absent, DOI = Absent\<rparr> of
        None \<Rightarrow> Inl AttributeError
      | Some ext \<Rightarrow> Inr (get (k ext)))"

text \<open>
  Each provider gives \<open>Inr (Some u)\<close> when the function returns \<open>u\<close> there, \<open>Inr None\<close>
  when control falls through to the next provider, and \<open>Inl e\<close> when it raises.
\<close>

type_synonym lookup = "(exn + string option) \<times> world"

definition arxiv_url :: "string \<Rightarrow> string" where
  "arxiv_url arxiv_id = ''https://arxiv.org/pdf/'' @ arxiv_id @ ''.pdf''"

definition unpaywall_url :: "string \<Rightarrow> string" where
  "unpaywall_url doi = ''https://api.unpaywall.org/v2/'' @ doi @ ''?email=test@example.com''"

definition core_request :: "string \<Rightarrow> request" where
  "core_request doi =
     \<lparr>req_url = ''https://api.core.ac.uk/v3/search/works?q=doi:'' @ doi,
      req_params = [],
      req_headers = [(''Authorization'', ''Bearer your_core_api_key'')]\<rparr>"

definition arxiv_probe :: "world \<Rightarrow> paper_data \<Rightarrow> lookup" where
  "arxiv_probe w pd =
     (case external_id pd ArXiv of
        Inl e \<Rightarrow> (Inl e, w)
      | Inr v \<Rightarrow>
          (case v of
             None \<Rightarrow> (Inr None, w)
           | Some arxiv_id \<Rightarrow>
               if arxiv_id = [] then (Inr None, w)
               else (let (res, w1) = http_get w (get_request (arxiv_url arxiv_id))
                     in case res of
                          Raises \<Rightarrow> (Inl ClientError, w1)
                        | Responds r \<Rightarrow>
                            if status r = 200 then (Inr (Some (arxiv_url arxiv_id)), w1)
                            else (Inr None, w1))))"

definition unpaywall_lookup :: "world \<Rightarrow> paper_data \<Rightarrow> lookup" where
  "unpaywall_lookup w pd =
     (case external_id pd DOI of
        Inl e \<Rightarrow> (Inl e, w)
      | Inr v \<Rightarrow>
          (case v of
             None \<Rightarrow> (Inr None, w)
           | Some doi \<Rightarrow>
               if doi = [] then (Inr None, w)
               else (let (res, w1) = http_get w (get_request (unpaywall_url doi))
                     in case res of
                          Raises \<Rightarrow> (Inl ClientError, w1)
                        | Responds r \<Rightarrow>
                            if status r = 200 then
                              (case as_unpaywall (json r) of
                                 Inl e \<Rightarrow> (Inl e, w1)
                               | Inr data \<Rightarrow>
                                   (case get_or (best_oa_location data)
                                           \<lparr>url_for_pdf = Absent\<rparr> of
                                      None \<Rightarrow> (Inl AttributeError, w1)
                                    | Some loc \<Rightarrow>
                                        if truthy (get (url_for_pdf loc))
                                        then (Inr (get (url_for_pdf loc)), w1)
                                        else (Inr None, w1)))
                            else (Inr None, w1))))"

definition core_search :: "world \<Rightarrow> paper_data \<Rightarrow> lookup" where
  "core_search w pd =
     (case external_id pd DOI of
        Inl e \<Rightarrow> (Inl e, w)
      | Inr v \<Rightarrow>
          (case v of
             None \<Rightarrow> (Inr None, w)
           | Some doi \<Rightarrow>
               if doi = [] then (Inr None, w)
               else (let (res, w1) = http_get w (core_request doi)
                     in case res of
                          Raises \<Rightarrow> (Inl ClientError, w1)
                        | Responds r \<Rightarrow>
                            if status r = 200 then
                              (case as_core (json r) of
                                 Inl e \<Rightarrow> (Inl e, w1)
                               | Inr data \<Rightarrow>
                                   (case get (results data) of
                                      None \<Rightarrow> (Inr None, w1)
                                    | Some [] \<Rightarrow> (Inr None, w1)
                                    | Some (first # _) \<Rightarrow>
                                        if truthy (get (downloadUrl first))
                                        then (Inr (get (downloadUrl first)), w1)
                                        else (Inr None, w1)))
                            else (Inr None, w1))))"

definition or_next :: "lookup \<Rightarrow> (world \<Rightarrow> lookup) \<Rightarrow> lookup" where
  "or_next r k = (case r of (Inr None, w) \<Rightarrow> k w | _ \<Rightarrow> r)"

text \<open>
  The requests of the chain in the order the specification gives: arXiv, then Unpaywall
  by DOI, then CORE by DOI.
\<close>

definition arxiv_part :: "paper_data \<Rightarrow> event list" where
  "arxiv_part pd =
     (case external_id pd ArXiv of
        Inr (Some a) \<Rightarrow> if a = [] then [] else [Get (get_request (arxiv_url a))]
      | _ \<Rightarrow> [])"

definition unpaywall_part :: "paper_data \<Rightarrow> event list" where
  "unpaywall_part pd =
     (case external_id pd DOI of
        Inr (Some d) \<Rightarrow> if d = [] then [] else [Get (get_request (unpaywall_url d))]
      | _ \<Rightarrow> [])"

definition core_part :: "paper_data \<Rightarrow> event list" where
  "core_part pd =
     (case external_id pd DOI of
        Inr (Some d) \<Rightarrow> if d = [] then [] else [Get (core_request d)]
      | _ \<Rightarrow> [])"

definition fallback_order :: "paper_data \<Rightarrow> event list" where
  "fallback_order pd = arxiv_part pd @ unpaywall_part pd @ core_part pd"

text \<open>The body of the \<^verbatim>\<open>try\<close> block, then the single handler around it.\<close>

definition alternative_sources_body :: "world \<Rightarrow> paper_data \<Rightarrow> lookup" where
  "alternative_sources_body w pd =
     or_next (arxiv_probe w pd) (\<lambda>w1.
     or_next (unpaywall_lookup w1 pd) (\<lambda>w2.
     core_search w2 pd))"

definition try_alternative_sources :: "world \<Rightarrow> paper_data \<Rightarrow> string option \<times> world" where
  "try_alternative_sources w pd =
     (case alternative_sources_body w pd of
        (Inl e, w1) \<Rightarrow> (None, w1)
      | (Inr found, w1) \<Rightarrow> (found, w1))"

subsection \<open>Filenames\<close>

text \<open>
  A character is a code point below 256 (the first block of Unicode, Latin-1). On a
  \<^verbatim>\<open>str\<close> pattern \<^verbatim>\<open>\w\<close> matches the underscore and every character that is
  alphanumeric in Unicode: there the ASCII letters and digits, the accented letters, the
  ordinal indicators, the micro sign, and the superscript digits and vulgar fractions.
  \<^verbatim>\<open>\s\<close> matches the Unicode white space: there the ASCII white space and separators,
  the next-line control and the no-break space.
\<close>

definition is_word_char :: "char \<Rightarrow> bool" where
  "is_word_char c =
     (let n = (of_char c :: nat)
      in (48 \<le> n \<and> n \<le> 57) \<or> (65 \<le> n \<and> n \<le> 90) \<or> n = 95 \<or> (97 \<le> n \<and> n \<le> 122) \<or>
         n = 170 \<or> n = 178 \<or> n = 179 \<or> n = 181 \<or> n = 185 \<or> n = 186 \<or>
         (188 \<le> n \<and> n \<le> 190) \<or> (192 \<le> n \<and> n \<le> 214) \<or> (216 \<le> n \<and> n \<le> 246) \<or>
         (248 \<le> n \<and> n \<le> 255))"

definition is_space_char :: "char \<Rightarrow> bool" where
  "is_space_char c =
     (let n = (of_char c :: nat)
      in (9 \<le> n \<and> n \<le> 13) \<or> (28 \<le> n \<and> n \<le> 32) \<or> n = 133 \<or> n = 160)"

definition is_separator :: "char \<Rightarrow> bool" where
  "is_separator c = (c = CHR ''-'' \<or> is_space_char c)"

text \<open>\<^verbatim>\<open>re.sub(r'[-\s]+', '_', clean)\<close>: every maximal run of separators becomes one underscore.\<close>

function squeeze :: "string \<Rightarrow> string" where
  "squeeze [] = []"
| "squeeze (c # cs) =
     (if is_separator c then CHR ''_'' # squeeze (dropWhile is_separator cs)
      else c # squeeze cs)"
  by pat_completeness auto
termination
  by (relation "measure length") (auto simp: less_Suc_eq_le length_dropWhile_le)

definition clean_filename :: "string \<Rightarrow> string" where
  "clean_filename t =
     take 100 (squeeze (filter (\<lambda>c. is_word_char c \<or> is_space_char c \<or> c = CHR ''-'') t))"

text \<open>
  \<^verbatim>\<open>re.findall("filename=(.+)", cd)[0]\<close>: the first place where \<^verbatim>\<open>filename=\<close> is followed
  by at least one character other than a newline, and the rest of that line.
\<close>

fun find_filename :: "string \<Rightarrow> string option" where
  "find_filename [] = None"
| "find_filename (c # cs) =
     (let grp = takeWhile (\<lambda>x. x \<noteq> CHR 0x0A) (drop 9 (c # cs))
      in if take 9 (c # cs) = ''filename='' \<and> grp \<noteq> [] then Some grp
         else find_filename cs)"

definition strip_quotes :: "string \<Rightarrow> string" where
  "strip_quotes s =
     rev (dropWhile (\<lambda>c. c = CHR 0x22) (rev (dropWhile (\<lambda>c. c = CHR 0x22) s)))"

definition after_last :: "char \<Rightarrow> string \<Rightarrow> string" where
  "after_last c s = rev (takeWhile (\<lambda>x. x \<noteq> c) (rev s))"

definition before_last :: "char \<Rightarrow> string \<Rightarrow> string" where
  "before_last c s = take (length s - length (after_last c s) - 1) s"

definition basename :: "string \<Rightarrow> string" where
  "basename p = after_last CHR ''/'' p"

text \<open>\<^verbatim>\<open>Path(p).stem\<close>: the last component without its last suffix.\<close>

definition path_stem :: "string \<Rightarrow> string" where
  "path_stem p =
     (let name = basename p; i = length (before_last CHR ''.'' name)
      in if CHR ''.'' \<in> set name \<and> 0 < i \<and> i < length name - 1 then take i name else name)"

definition ends_with :: "string \<Rightarrow> string \<Rightarrow> bool" where
  "ends_with suffix s = (length suffix \<le> length s \<and> drop (length s - length suffix) s = suffix)"

definition path_join :: "string \<Rightarrow> string \<Rightarrow> string" where
  "path_join a b =
     (if take 1 b = ''/'' then b
      else if a = [] \<or> ends_with ''/'' a then a @ b
      else a @ ''/'' @ b)"

text \<open>
  \<^verbatim>\<open>os.path.splitext\<close>: the extension starts at the last dot of the last component,
  unless only dots precede it there.
\<close>

definition splitext :: "string \<Rightarrow> string \<times> string" where
  "splitext p =
     (let name = basename p;
          dir = take (length p - length name) p;
          stem = before_last CHR ''.'' name
      in if CHR ''.'' \<in> set name \<and> filter (\<lambda>c. c \<noteq> CHR ''.'') stem \<noteq> []
         then (dir @ stem, drop (length stem) name)
         else (p, []))"

definition extract_filename_from_response :: "response \<Rightarrow> paper_data \<Rightarrow> string" where
  "extract_filename_from_response r pd =
     (let from_header =
            (case content_disposition r of
               None \<Rightarrow> None
             | Some cd \<Rightarrow> if cd = [] then None else find_filename cd);
          url_filename = path_stem (url_path r);
          title = get_or (title pd) [];
          fallback = (case get_or (paperId pd) ''unknown'' of
                        None \<Rightarrow> ''None''
                      | Some i \<Rightarrow> i) @ ''.pdf''
      in case from_header of
           Some fname \<Rightarrow> strip_quotes fname
         | None \<Rightarrow>
             if ends_with ''.pdf'' (url_path r) \<and> 10 < length url_filename
             then url_filename @ ''.pdf''
             else (case title of
                     Some (c # cs) \<Rightarrow> clean_filename (c # cs) @ ''.pdf''
                   | _ \<Rightarrow> fallback))"

subsection \<open>The collision loop\<close>

text \<open>\<^verbatim>\<open>f"{counter}"\<close> for a counter that starts at 1 and only grows: its decimal digits.\<close>

definition digit :: "nat \<Rightarrow> char" where
  "digit d = ''0123456789'' ! d"

fun str_nat :: "nat \<Rightarrow> string" where
  "str_nat n = (if n < 10 then [digit n] else str_nat (n div 10) @ [digit (n mod 10)])"

declare str_nat.simps [simp del]

definition digits_value :: "string \<Rightarrow> nat" where
  "digits_value s = foldl (\<lambda>a c. 10 * a + (of_char c - 48)) 0 s"

lemma of_char_digit: "d < 10 \<Longrightarrow> of_char (digit d) = 48 + d"
proof -
  assume "d < 10"
  then have "d \<in> {0, 1, 2, 3, 4, 5, 6, 7, 8, 9}"
    by auto
  then show ?thesis
    by (auto simp: digit_def)
qed

lemma digits_value_str_nat: "digits_value (str_nat n) = n"
proof (induction n rule: str_nat.induct)
  case (1 n)
  show ?case
  proof (cases "n < 10")
    case True
    then show ?thesis
      by (subst str_nat.simps) (simp add: digits_value_def of_char_digit)
  next
    case False
    then have "digits_value (str_nat (n div 10)) = n div 10"
      using 1 by simp
    then show ?thesis
      using False
      by (subst str_nat.simps) (simp add: digits_value_def of_char_digit)
  qed
qed

lemma str_nat_inj: "str_nat m = str_nat n \<Longrightarrow> m = n"
  by (metis digits_value_str_nat)

text \<open>\<^verbatim>\<open>f"{base}_{counter}{ext}"\<close> and \<^verbatim>\<open>os.path.exists\<close>.\<close>

definition candidate :: "string \<Rightarrow> string \<Rightarrow> nat \<Rightarrow> string" where
  "candidate base ext counter = base @ ''_'' @ str_nat counter @ ext"

lemma candidate_inj: "candidate base ext m = candidate base ext n \<Longrightarrow> m = n"
  by (simp add: candidate_def str_nat_inj)

definition path_exists :: "world \<Rightarrow> string \<Rightarrow> bool" where
  "path_exists w p = (p \<in> set (map fst (files w)) \<or> p \<in> set (dirs w))"

definition taken_from :: "world \<Rightarrow> string \<Rightarrow> string \<Rightarrow> nat \<Rightarrow> nat set" where
  "taken_from w base ext counter = {n. counter \<le> n \<and> path_exists w (candidate base ext n)}"

lemma finite_taken_from: "finite (taken_from w base ext counter)"
proof -
  have "taken_from w base ext counter \<subseteq>
      candidate base ext -` (set (map fst (files w)) \<union> set (dirs w))"
    by (auto simp: taken_from_def path_exists_def)
  moreover have "finite (candidate base ext -` (set (map fst (files w)) \<union> set (dirs w)))"
    by (intro finite_vimageI) (auto simp: inj_on_def dest: candidate_inj)
  ultimately show ?thesis
    by (rule finite_subset)
qed

lemma card_taken_from:
  "card (taken_from w base ext counter) =
     (if path_exists w (candidate base ext counter) then 1 else 0) +
     card (taken_from w base ext (Suc counter))"
proof -
  have "taken_from w base ext counter =
     (if path_exists w (candidate base ext counter) then {counter} else {}) \<union>
     taken_from w base ext (Suc counter)"
    by (auto simp: taken_from_def Suc_le_eq le_less)
  moreover have "counter \<notin> taken_from w base ext (Suc counter)"
    by (simp add: taken_from_def)
  ultimately show ?thesis
    using finite_taken_from[of w base ext "Suc counter"] by simp
qed

text \<open>
  The \<^verbatim>\<open>while os.path.exists(filepath)\<close> loop of lines 141-145. It ends because the disk
  holds finitely many paths and the candidates are pairwise different.
\<close>

function free_path :: "world \<Rightarrow> string \<Rightarrow> string \<Rightarrow> string \<Rightarrow> nat \<Rightarrow> string" where
  "free_path w base ext filepath counter =
     (if path_exists w filepath
      then free_path w base ext (candidate base ext counter) (counter + 1)
      else filepath)"
  by pat_completeness auto
termination
proof (relation "measure (\<lambda>(w, base, ext, filepath, counter).
          2 * card (taken_from w base ext counter) + (if path_exists w filepath then 1 else 0))")
  show "wf (measure (\<lambda>(w, base, ext, filepath, counter).
          2 * card (taken_from w base ext counter) + (if path_exists w filepath then 1 else 0)))"
    by simp
next
  fix w :: world and base ext filepath :: string and counter :: nat
  assume "path_exists w filepath"
  then show "((w, base, ext, candidate base ext counter, counter + 1),
              (w, base, ext, filepath, counter))
      \<in> measure (\<lambda>(w, base, ext, filepath, counter).
          2 * card (taken_from w base ext counter) + (if path_exists w filepath then 1 else 0))"
    using card_taken_from[of w base ext counter] by simp
qed

declare free_path.simps [simp del]

subsection \<open>download_pdf\<close>

definition write_file :: "(string \<times> string) list \<Rightarrow> string \<Rightarrow> string \<Rightarrow> (string \<times> string) list" where
  "write_file fs p bytes = (p, bytes) # filter (\<lambda>e. fst e \<noteq> p) fs"

text \<open>Lines 116-126: the URL the download will use, if any.\<close>

definition open_access_url :: "paper_data \<Rightarrow> string option" where
  "open_access_url pd =
     (case get (openAccessPdf pd) of
        None \<Rightarrow> None
      | Some oa \<Rightarrow> get (oa_url oa))"

definition resolve_pdf_url :: "world \<Rightarrow> paper_data \<Rightarrow> string option \<times> world" where
  "resolve_pdf_url w pd =
     (let pdf_url = open_access_url pd
      in if \<not> truthy pdf_url then try_alternative_sources w pd else (pdf_url, w))"

text \<open>Lines 137-145: the path the file will be saved under.\<close>

definition target_path :: "PaperFetcher \<Rightarrow> world \<Rightarrow> string \<Rightarrow> string" where
  "target_path self w filename =
     (let filepath = path_join (output_dir self) filename;
          (base, ext) = splitext filepath
      in free_path w base ext filepath 1)"

text \<open>
  Lines 136-154, on a response with status 200, in three parts with an \<^verbatim>\<open>await\<close> between
  them: the choice of the path (lines 136-147); \<^verbatim>\<open>aiofiles.open\<close> (line 148), which creates
  the file empty or empties the file that is there, and raises on a directory or a path that
  cannot be written; the reading of the body and the write (line 149). An exception is
  \<open>Inl\<close>.
\<close>

definition choose_path :: "PaperFetcher \<Rightarrow> world \<Rightarrow> response \<Rightarrow> paper_data \<Rightarrow> string" where
  "choose_path self w r pd = target_path self w (extract_filename_from_response r pd)"

definition open_file :: "world \<Rightarrow> string \<Rightarrow> exn + world" where
  "open_file w filepath =
     (if \<not> writable w filepath \<or> filepath \<in> set (dirs w) then Inl OSError
      else Inr (w\<lparr>files := write_file (files w) filepath [],
                   trace := trace w @ [Write filepath]\<rparr>))"

definition write_body :: "world \<Rightarrow> response \<Rightarrow> string \<Rightarrow> exn + world" where
  "write_body w r filepath =
     (case content r of
        None \<Rightarrow> Inl ClientError
      | Some bytes \<Rightarrow> Inr (w\<lparr>files := write_file (files w) filepath bytes\<rparr>))"

definition save_response ::
  "PaperFetcher \<Rightarrow> world \<Rightarrow> response \<Rightarrow> paper_data \<Rightarrow> (exn + bool) \<times> paper_data \<times> world" where
  "save_response self w r pd =
     (let filepath = choose_path self w r pd
      in case open_file w filepath of
           Inl e \<Rightarrow> (Inl e, pd, w)
         | Inr w1 \<Rightarrow>
             (case write_body w1 r filepath of
                Inl e \<Rightarrow> (Inl e, pd, w1)
              | Inr w2 \<Rightarrow> (Inr True, pd\<lparr>saved_filename := Val (basename filepath)\<rparr>, w2)))"

definition download_pdf ::
  "PaperFetcher \<Rightarrow> world \<Rightarrow> paper_data \<Rightarrow> bool \<times> paper_data \<times> world" where
  "download_pdf self w pd =
     (let (pdf_url, w1) = resolve_pdf_url w pd
      in case pdf_url of
           None \<Rightarrow> (False, pd, w1)
         | Some u \<Rightarrow>
             if u = [] then (False, pd, w1)
             else (let (res, w2) = http_get w1 (get_request u)
                   in case res of
                        Raises \<Rightarrow> (False, pd, w2)
                      | Responds r \<Rightarrow>
                          if status r = 200 then
                            (case save_response self w2 r pd of
                               (Inl e, pd', w3) \<Rightarrow> (False, pd', w3)
                             | (Inr ok, pd', w3) \<Rightarrow> (ok, pd', w3))
                          else (False, pd, w2)))"

subsection \<open>download_pdf between tasks\<close>

text \<open>
  Several calls of \<^verbatim>\<open>download_pdf\<close> run at once, as tasks of one event loop, and share the
  disk. A call is suspended where the code awaits. It is
  \<^item> \<open>Called\<close>: not started;
  \<^item> \<open>Opening\<close>: lines 112-147 have run (the resolution, the request, answered 200, and
    the choice of the path, which follows the answer without an \<^verbatim>\<open>await\<close>); the task awaits
    \<^verbatim>\<open>aiofiles.open\<close> on the chosen path (line 148);
  \<^item> \<open>Writing\<close>: the file is open; the task awaits the body and the write (line 149);
  \<^item> \<open>Finished\<close>: returned, with the result and the metadata as the call left it.
  One step runs one task from one place to the next; a run is any sequence of steps.
\<close>

datatype download =
  Called paper_data
  | Opening paper_data response string
  | Writing paper_data response string
  | Finished bool paper_data

record downloads =
  dl_fetcher :: PaperFetcher
  dl_env :: world
  dl_tasks :: "download list"

definition begin_download :: "PaperFetcher \<Rightarrow> world \<Rightarrow> paper_data \<Rightarrow> download \<times> world" where
  "begin_download self w pd =
     (let (pdf_url, w1) = resolve_pdf_url w pd
      in case pdf_url of
           None \<Rightarrow> (Finished False pd, w1)
         | Some u \<Rightarrow>
             if u = [] then (Finished False pd, w1)
             else (let (res, w2) = http_get w1 (get_request u)
                   in case res of
                        Raises \<Rightarrow> (Finished False pd, w2)
                      | Responds r \<Rightarrow>
                          if status r = 200
                          then (Opening pd r (choose_path self w2 r pd), w2)
                          else (Finished False pd, w2)))"

definition download_step :: "nat \<Rightarrow> downloads \<Rightarrow> downloads" where
  "download_step i s =
     (if i < length (dl_tasks s) then
        (case dl_tasks s ! i of
           Called pd \<Rightarrow>
             (let (t, w1) = begin_download (dl_fetcher s) (dl_env s) pd
              in s\<lparr>dl_env := w1, dl_tasks := (dl_tasks s)[i := t]\<rparr>)
         | Opening pd r filepath \<Rightarrow>
             (case open_file (dl_env s) filepath of
                Inl e \<Rightarrow> s\<lparr>dl_tasks := (dl_tasks s)[i := Finished False pd]\<rparr>
              | Inr w1 \<Rightarrow>
                  s\<lparr>dl_env := w1, dl_tasks := (dl_tasks s)[i := Writing pd r filepath]\<rparr>)
         | Writing pd r filepath \<Rightarrow>
             (case write_body (dl_env s) r filepath of
                Inl e \<Rightarrow> s\<lparr>dl_tasks := (dl_tasks s)[i := Finished False pd]\<rparr>
              | Inr w1 \<Rightarrow>
                  s\<lparr>dl_env := w1,
                    dl_tasks := (dl_tasks s)[i :=
                      Finished True (pd\<lparr>saved_filename := Val (basename filepath)\<rparr>)]\<rparr>)
         | Finished ok pd \<Rightarrow> s)
      else s)"

definition download_run :: "nat list \<Rightarrow> downloads \<Rightarrow> downloads" where
  "download_run sched s = fold download_step sched s"

definition downloads_start :: "PaperFetcher \<Rightarrow> world \<Rightarrow> paper_data list \<Rightarrow> downloads" where
  "downloads_start self w pds = \<lparr>dl_fetcher = self, dl_env = w, dl_tasks = map Called pds\<rparr>"

section \<open>process_paper: the crawl\<close>

record paper_record =
  rec_id :: string
  rec_title :: "string option"
  rec_authors :: "string option list"
  rec_year :: "int option"
  rec_url :: "string option"
  rec_filename :: "string option"
  rec_pdf_path :: string

text \<open>
  The dictionary of lines 206-214. Iterating over \<^verbatim>\<open>None\<close> and joining a path with
  \<^verbatim>\<open>None\<close> raise \<^verbatim>\<open>TypeError\<close>.
\<close>

definition make_record :: "PaperFetcher \<Rightarrow> string \<Rightarrow> paper_data \<Rightarrow> exn + paper_record" where
  "make_record self pid pd =
     (case get_or (authors pd) [] of
        None \<Rightarrow> Inl TypeError
      | Some as \<Rightarrow>
          (case get_or (saved_filename pd) (pid @ ''.pdf'') of
             None \<Rightarrow> Inl TypeError
           | Some fname \<Rightarrow>
               Inr \<lparr>rec_id = pid,
                    rec_title = get_or (title pd) ''Unknown'',
                    rec_authors = map (\<lambda>a. get_or (au_name a) []) as,
                    rec_year = get (year pd),
                    rec_url = get (url pd),
                    rec_filename = get (saved_filename pd),
                    rec_pdf_path = path_join (output_dir self) fname\<rparr>))"

definition connected_papers :: "paper_data \<Rightarrow> paper_ref list" where
  "connected_papers pd =
     (case get (references pd) of None \<Rightarrow> [] | Some rs \<Rightarrow> rs) @
     (case get (citations pd) of None \<Rightarrow> [] | Some cs \<Rightarrow> cs)"

text \<open>The ids for which line 229 creates a task, in order.\<close>

definition child_ids :: "paper_data \<Rightarrow> string list" where
  "child_ids pd =
     concat (map (\<lambda>p. case get (ref_paperId p) of
                         None \<Rightarrow> []
                       | Some i \<Rightarrow> if i = [] then [] else [i])
                 (connected_papers pd))"

text \<open>
  \<^verbatim>\<open>process_paper\<close> is a coroutine: \<^verbatim>\<open>asyncio.gather\<close> runs the calls for the children
  as tasks interleaved at their \<^verbatim>\<open>await\<close>s. A task is one call, with its arguments and
  the place where it stands:
  \<^item> \<open>Start\<close>: created, line 194 not yet run;
  \<^item> \<open>Fetching\<close>: past line 197, inside \<^verbatim>\<open>await self.fetch_paper_details\<close>;
  \<^item> \<open>Downloading\<close>: inside \<^verbatim>\<open>await self.download_pdf\<close>;
  \<^item> \<open>Gathering\<close>: inside \<^verbatim>\<open>await asyncio.gather\<close>, with its own results so far and the
    tasks it waits for;
  \<^item> \<open>Returned\<close>, \<open>Raised\<close>: finished.
  All tasks live in one pool and are named by their position in it. One step runs one task
  from one place to the next, and a run of the crawl is any sequence of such steps: the
  order in which the answers of the network arrive is not known. A fetch or a download is
  one step here, so no other task runs in the middle of one. What the tasks share during a
  download is the disk: the steps of \<open>download_step\<close> above and the section on file name
  collisions are about that. What they share during a fetch, the semaphore and
  \<^verbatim>\<open>last_request_time\<close>, is the subject of the last section.
  \<open>calls\<close> records the calls of \<^verbatim>\<open>fetch_paper_details\<close> and \<^verbatim>\<open>download_pdf\<close> and what
  the fetches returned; \<open>marked\<close> records the ids added to \<^verbatim>\<open>visited_papers\<close>, each with
  the depth of the call that added it. Printing and logging are left out.
\<close>

datatype phase =
  Start
  | Fetching
  | Downloading paper_data
  | Gathering "paper_record list" "nat list"
  | Returned "paper_record list"
  | Raised exn

record task =
  paper_id :: string
  depth :: int
  phase :: phase

datatype call =
  FetchCall string
  | FetchReturn string "paper_data option"
  | DownloadCall string

record crawl =
  fetcher :: PaperFetcher
  env :: world
  pool :: "task list"
  calls :: "call list"
  marked :: "(string \<times> int) list"

definition set_phase :: "nat \<Rightarrow> phase \<Rightarrow> task list \<Rightarrow> task list" where
  "set_phase i ph ts = ts[i := (ts ! i)\<lparr>phase := ph\<rparr>]"

text \<open>Lines 194-198: the guard, the mark, and the call of the fetch.\<close>

definition step_start :: "nat \<Rightarrow> crawl \<Rightarrow> crawl" where
  "step_start i s =
     (let t = pool s ! i
      in if paper_id t \<in> visited_papers (fetcher s) \<or> depth t < 0
         then s\<lparr>pool := set_phase i (Returned []) (pool s)\<rparr>
         else s\<lparr>fetcher := (fetcher s)\<lparr>visited_papers :=
                               insert (paper_id t) (visited_papers (fetcher s))\<rparr>,
                 pool := set_phase i Fetching (pool s),
                 calls := calls s @ [FetchCall (paper_id t)],
                 marked := marked s @ [(paper_id t, depth t)]\<rparr>)"

text \<open>
  Lines 198-205: the fetch returns; without data (\<^verbatim>\<open>None\<close>, or the empty object) the task
  returns, else the download is called.
\<close>

definition step_fetched :: "nat \<Rightarrow> crawl \<Rightarrow> crawl" where
  "step_fetched i s =
     (let t = pool s ! i;
          (paper_data, self1, w1) = fetch_paper_details (fetcher s) (env s) (paper_id t) 3
      in case paper_data of
           None \<Rightarrow>
             s\<lparr>fetcher := self1, env := w1,
               pool := set_phase i (Returned []) (pool s),
               calls := calls s @ [FetchReturn (paper_id t) None]\<rparr>
         | Some pd \<Rightarrow>
             if pd = empty_dict then
               s\<lparr>fetcher := self1, env := w1,
                 pool := set_phase i (Returned []) (pool s),
                 calls := calls s @ [FetchReturn (paper_id t) (Some pd)]\<rparr>
             else
               s\<lparr>fetcher := self1, env := w1,
                 pool := set_phase i (Downloading pd) (pool s),
                 calls := calls s @
                   [FetchReturn (paper_id t) (Some pd), DownloadCall (paper_id t)]\<rparr>)"

text \<open>Lines 205-232: the download returns, the record is built, the children are dispatched.\<close>

definition step_downloaded :: "nat \<Rightarrow> paper_data \<Rightarrow> crawl \<Rightarrow> crawl" where
  "step_downloaded i pd s =
     (let t = pool s ! i;
          (ok, pd1, w1) = download_pdf (fetcher s) (env s) pd;
          own = (if ok then (case make_record (fetcher s) (paper_id t) pd1 of
                               Inl e \<Rightarrow> Inl e
                             | Inr r \<Rightarrow> Inr [r])
                 else Inr []);
          kids = child_ids pd1;
          n = length (pool s)
      in case own of
           Inl e \<Rightarrow> s\<lparr>env := w1, pool := set_phase i (Raised e) (pool s)\<rparr>
         | Inr rs \<Rightarrow>
             if kids = [] then s\<lparr>env := w1, pool := set_phase i (Returned rs) (pool s)\<rparr>
             else s\<lparr>env := w1,
                     pool := set_phase i (Gathering rs [n ..< n + length kids]) (pool s) @
                             map (\<lambda>k. \<lparr>paper_id = k, depth = depth t - 1, phase = Start\<rparr>) kids\<rparr>)"

text \<open>
  Lines 232-236: \<^verbatim>\<open>gather\<close> raises when a child has raised, and gives the children's
  results in the order of the tasks once all have returned.
\<close>

fun raised :: "phase list \<Rightarrow> exn option" where
  "raised [] = None"
| "raised (Raised e # ps) = Some e"
| "raised (p # ps) = raised ps"

fun returned :: "phase list \<Rightarrow> paper_record list list option" where
  "returned [] = Some []"
| "returned (Returned rs # ps) = (case returned ps of None \<Rightarrow> None | Some rss \<Rightarrow> Some (rs # rss))"
| "returned (p # ps) = None"

definition step_gather :: "nat \<Rightarrow> paper_record list \<Rightarrow> nat list \<Rightarrow> crawl \<Rightarrow> crawl" where
  "step_gather i rs kids s =
     (let phases = map (\<lambda>k. phase (pool s ! k)) kids
      in case raised phases of
           Some e \<Rightarrow> s\<lparr>pool := set_phase i (Raised e) (pool s)\<rparr>
         | None \<Rightarrow>
             (case returned phases of
                None \<Rightarrow> s
              | Some child_results \<Rightarrow>
                  s\<lparr>pool := set_phase i (Returned (rs @ concat child_results)) (pool s)\<rparr>))"

definition step :: "nat \<Rightarrow> crawl \<Rightarrow> crawl" where
  "step i s =
     (if i < length (pool s) then
        (case phase (pool s ! i) of
           Start \<Rightarrow> step_start i s
         | Fetching \<Rightarrow> step_fetched i s
         | Downloading pd \<Rightarrow> step_downloaded i pd s
         | Gathering rs kids \<Rightarrow> step_gather i rs kids s
         | Returned rs \<Rightarrow> s
         | Raised e \<Rightarrow> s)
      else s)"

text \<open>A run of the crawl: the tasks that take a step, in order.\<close>

definition run :: "nat list \<Rightarrow> crawl \<Rightarrow> crawl" where
  "run sched s = fold step sched s"

definition process_paper :: "PaperFetcher \<Rightarrow> world \<Rightarrow> string \<Rightarrow> int \<Rightarrow> crawl" where
  "process_paper self w pid d =
     \<lparr>fetcher = self, env = w,
      pool = [\<lparr>paper_id = pid, depth = d, phase = Start\<rparr>],
      calls = [], marked = []\<rparr>"

fun fetch_calls :: "call list \<Rightarrow> string list" where
  "fetch_calls [] = []"
| "fetch_calls (FetchCall p # cs) = p # fetch_calls cs"
| "fetch_calls (c # cs) = fetch_calls cs"

fun download_calls :: "call list \<Rightarrow> string list" where
  "download_calls [] = []"
| "download_calls (DownloadCall p # cs) = p # download_calls cs"
| "download_calls (c # cs) = download_calls cs"

text \<open>
  The citation graph as the crawl saw it: an edge from a paper to each child its metadata
  named. \<open>nodes_within E r n\<close> lists the nodes at most \<open>n\<close> edges away from \<open>r\<close>.
\<close>

fun edges :: "call list \<Rightarrow> (string \<times> string) list" where
  "edges [] = []"
| "edges (FetchReturn p (Some pd) # cs) = map (Pair p) (child_ids pd) @ edges cs"
| "edges (c # cs) = edges cs"

fun nodes_within :: "(string \<times> string) list \<Rightarrow> string \<Rightarrow> nat \<Rightarrow> string list" where
  "nodes_within E r 0 = [r]"
| "nodes_within E r (Suc n) =
     nodes_within E r n @ map snd (filter (\<lambda>e. fst e \<in> set (nodes_within E r n)) E)"

section \<open>Retries of the metadata fetch\<close>

lemma details_request_last [simp]:
  "details_request (self\<lparr>last_request_time := t\<rparr>) p = details_request self p"
  by (simp add: details_request_def)

lemma three_attempts: "[0 ..< (3::nat)] = [0, Suc 0, 2]"
  by (simp add: upt_rec)

lemma attempt_429:
  assumes "snd (net w (issued w) (details_request self p)) = Responds a" "status a = 429"
  shows "fetch_attempts self w p retries (k # rest) =
           fetch_attempts (fst (after_429 self w p k)) (snd (after_429 self w p k)) p retries rest"
  using assms
  by (simp add: after_429_def wait_for_rate_limit_def http_get_def sleep_def issued_def Let_def
      split_beta)

lemma attempt_200:
  assumes "snd (net w (issued w) (details_request self p)) = Responds a" "status a = 200"
    "as_paper (json a) = Inr data"
  shows "fst (fetch_attempts self w p retries (k # rest)) = Some data"
  using assms
  by (simp add: wait_for_rate_limit_def http_get_def sleep_def issued_def Let_def split_beta)

lemma after_429_frame:
  "net (snd (after_429 self w p k)) = net w"
  "issued (snd (after_429 self w p k)) = issued w + 1"
  "details_request (fst (after_429 self w p k)) q = details_request self q"
  "request_interval (fst (after_429 self w p k)) = request_interval self"
  "trace (snd (after_429 self w p k)) =
     trace w @ rate_wait self w @ [Get (details_request self p), Sleep (5 * (real k + 1))]"
  by (simp_all add: after_429_def wait_for_rate_limit_def http_get_def sleep_def issued_def
      Let_def split_beta rate_wait_def)

lemma after_429_no_wait:
  assumes "0 \<le> fst (net w (issued w) (details_request self p))" "request_interval self \<le> 5"
  shows "rate_wait (fst (after_429 self w p k)) (snd (after_429 self w p k)) = []"
  using assms
  by (simp add: after_429_def wait_for_rate_limit_def http_get_def sleep_def issued_def
      Let_def split_beta rate_wait_def)

lemma two_429_then_200:
  assumes "r = details_request self pid" "n = issued w"
    and "snd (net w n r) = Responds a1" "status a1 = 429"
    and "snd (net w (n + 1) r) = Responds a2" "status a2 = 429"
    and "snd (net w (n + 2) r) = Responds a3" "status a3 = 200" "as_paper (json a3) = Inr data"
  shows "fst (fetch_paper_details self w pid 3) = Some data"
proof -
  let ?s1 = "after_429 self w pid 0"
  let ?s2 = "after_429 (fst ?s1) (snd ?s1) pid (Suc 0)"
  have 1: "fetch_attempts self w pid 3 [0, Suc 0, 2] =
           fetch_attempts (fst ?s1) (snd ?s1) pid 3 [Suc 0, 2]"
    using assms by (intro attempt_429[where a = a1]) simp_all
  have 2: "fetch_attempts (fst ?s1) (snd ?s1) pid 3 [Suc 0, 2] =
           fetch_attempts (fst ?s2) (snd ?s2) pid 3 [2]"
    using assms by (intro attempt_429[where a = a2]) (simp_all add: after_429_frame)
  have 3: "fst (fetch_attempts (fst ?s2) (snd ?s2) pid 3 [2]) = Some data"
    using assms by (intro attempt_200[where a = a3]) (simp_all add: after_429_frame)
  show ?thesis
    unfolding fetch_paper_details_def by (simp only: nat_numeral three_attempts 1 2 3)
qed

lemma three_429:
  assumes "r = details_request self pid" "n = issued w"
    and "snd (net w n r) = Responds a1" "status a1 = 429"
    and "snd (net w (n + 1) r) = Responds a2" "status a2 = 429"
    and "snd (net w (n + 2) r) = Responds a3" "status a3 = 429"
  shows "fst (fetch_paper_details self w pid 3) = None"
    and "issued (snd (snd (fetch_paper_details self w pid 3))) = n + 3"
    and "request_interval self = 2 \<Longrightarrow> 0 \<le> fst (net w n r) \<Longrightarrow> 0 \<le> fst (net w (n + 1) r) \<Longrightarrow>
         trace (snd (snd (fetch_paper_details self w pid 3))) =
           trace w @ rate_wait self w @ [Get r, Sleep 5, Get r, Sleep 10, Get r, Sleep 15]"
proof -
  let ?s1 = "after_429 self w pid 0"
  let ?s2 = "after_429 (fst ?s1) (snd ?s1) pid (Suc 0)"
  let ?s3 = "after_429 (fst ?s2) (snd ?s2) pid 2"
  have 1: "fetch_attempts self w pid 3 [0, Suc 0, 2] =
           fetch_attempts (fst ?s1) (snd ?s1) pid 3 [Suc 0, 2]"
    using assms by (intro attempt_429[where a = a1]) simp_all
  have 2: "fetch_attempts (fst ?s1) (snd ?s1) pid 3 [Suc 0, 2] =
           fetch_attempts (fst ?s2) (snd ?s2) pid 3 [2]"
    using assms by (intro attempt_429[where a = a2]) (simp_all add: after_429_frame)
  have 3: "fetch_attempts (fst ?s2) (snd ?s2) pid 3 [2] =
           fetch_attempts (fst ?s3) (snd ?s3) pid 3 []"
    using assms by (intro attempt_429[where a = a3]) (simp_all add: after_429_frame)
  have all: "fetch_paper_details self w pid 3 = (None, fst ?s3, snd ?s3)"
    unfolding fetch_paper_details_def
    by (simp only: nat_numeral three_attempts 1 2 3 fetch_attempts.simps(1))
  show "fst (fetch_paper_details self w pid 3) = None"
    by (simp add: all)
  show "issued (snd (snd (fetch_paper_details self w pid 3))) = n + 3"
    using assms(2) by (simp add: all after_429_frame)
  assume quiet: "request_interval self = 2" "0 \<le> fst (net w n r)" "0 \<le> fst (net w (n + 1) r)"
  have w1: "rate_wait (fst ?s1) (snd ?s1) = []"
    using assms quiet by (intro after_429_no_wait) simp_all
  have w2: "rate_wait (fst ?s2) (snd ?s2) = []"
    using assms quiet by (intro after_429_no_wait) (simp_all add: after_429_frame)
  show "trace (snd (snd (fetch_paper_details self w pid 3))) =
           trace w @ rate_wait self w @ [Get r, Sleep 5, Get r, Sleep 10, Get r, Sleep 15]"
    using assms(1) by (simp add: all after_429_frame w1 w2)
qed

text \<open>A server that answers 429 to the first \<open>k\<close> requests and 200 from then on.\<close>

definition canned :: "int \<Rightarrow> response" where
  "canned code = \<lparr>status = code, content_disposition = None, url_path = [],
     json = PaperDoc no_paper_keys, content = Some []\<rparr>"

definition busy_net :: "nat \<Rightarrow> nat \<Rightarrow> request \<Rightarrow> real \<times> http_result" where
  "busy_net k n r = (0, Responds (canned (if n < k then 429 else 200)))"

definition busy_world :: "nat \<Rightarrow> world" where
  "busy_world k = \<lparr>net = busy_net k, clock = 1000, files = [], dirs = [''papers''],
     writable = (\<lambda>p. True), trace = []\<rparr>"

text \<open>
  C2, as the specification states it: three 429 answers and then a 200 on the fourth attempt
  give a successful fetch. The code makes three attempts in all: against a server that
  answers 429, 429, 429, 200 it returns \<^verbatim>\<open>None\<close> after three requests and never sends a
  fourth.
\<close>

theorem fetch_after_three_429_counterexample:
  "snd (busy_net 3 0 (details_request (init ''papers'' None) ''R'')) = Responds (canned 429) \<and>
   snd (busy_net 3 1 (details_request (init ''papers'' None) ''R'')) = Responds (canned 429) \<and>
   snd (busy_net 3 2 (details_request (init ''papers'' None) ''R'')) = Responds (canned 429) \<and>
   snd (busy_net 3 3 (details_request (init ''papers'' None) ''R'')) = Responds (canned 200) \<and>
   fst (fetch_paper_details (init ''papers'' None) (busy_world 3) ''R'' 3) = None \<and>
   issued (snd (snd (fetch_paper_details (init ''papers'' None) (busy_world 3) ''R'' 3))) = 3"
  by (simp add: busy_net_def busy_world_def fetch_paper_details_def three_attempts
      wait_for_rate_limit_def http_get_def sleep_def issued_def init_def canned_def Let_def)

text \<open>
  C2, amended: with \<open>retries = 3\<close> the fetch makes at most three attempts. When the first two
  are answered 429 and the third 200 with a JSON object, the fetch returns that object.
  When all three are answered 429 the fetch returns \<^verbatim>\<open>None\<close> (a value, not an exception)
  after exactly three requests; with the interval of 2 seconds and answers that take no
  negative time, what it does is: the wait of the rate limiter if one is due, then request,
  sleep 5, request, sleep 10, request, sleep 15.
\<close>

theorem fetch_paper_details_three_attempts:
  assumes "r = details_request self pid" and "n = issued w"
    and "snd (net w n r) = Responds a1" and "status a1 = 429"
    and "snd (net w (n + 1) r) = Responds a2" and "status a2 = 429"
    and "snd (net w (n + 2) r) = Responds a3"
  shows "(status a3 = 200 \<and> as_paper (json a3) = Inr data \<longrightarrow>
            fst (fetch_paper_details self w pid 3) = Some data) \<and>
         (status a3 = 429 \<longrightarrow>
            fst (fetch_paper_details self w pid 3) = None \<and>
            issued (snd (snd (fetch_paper_details self w pid 3))) = n + 3 \<and>
            (request_interval self = 2 \<and> 0 \<le> fst (net w n r) \<and> 0 \<le> fst (net w (n + 1) r) \<longrightarrow>
               trace (snd (snd (fetch_paper_details self w pid 3))) =
                 trace w @ rate_wait self w @
                 [Get r, Sleep 5, Get r, Sleep 10, Get r, Sleep 15]))"
  using two_429_then_200[OF assms(1-7)] three_429[OF assms(1-7)] by blast

theorem fetch_paper_details_three_attempts_witness:
  "fst (fetch_paper_details (init ''papers'' None) (busy_world 2) ''R'' 3) = Some no_paper_keys \<and>
   fst (fetch_paper_details (init ''papers'' None) (busy_world 3) ''R'' 3) = None \<and>
   trace (snd (snd (fetch_paper_details (init ''papers'' None) (busy_world 3) ''R'' 3))) =
     [Get (details_request (init ''papers'' None) ''R''), Sleep 5,
      Get (details_request (init ''papers'' None) ''R''), Sleep 10,
      Get (details_request (init ''papers'' None) ''R''), Sleep 15]"
  using
    fetch_paper_details_three_attempts[of "details_request (init ''papers'' None) ''R''"
      "init ''papers'' None" "''R''" 0 "busy_world 2" "canned 429" "canned 429" "canned 200"
      no_paper_keys]
    fetch_paper_details_three_attempts[of "details_request (init ''papers'' None) ''R''"
      "init ''papers'' None" "''R''" 0 "busy_world 3" "canned 429" "canned 429" "canned 429"
      no_paper_keys]
  by (simp add: busy_net_def busy_world_def issued_def canned_def as_paper_def rate_wait_def
      init_def)

section \<open>The resolution of the PDF source\<close>

lemma trace_http_get [simp]: "trace (snd (http_get w r)) = trace w @ [Get r]"
  by (simp add: http_get_def split_beta)

lemma files_http_get [simp]: "files (snd (http_get w r)) = files w"
  by (simp add: http_get_def split_beta)

lemma files_arxiv_probe: "files (snd (arxiv_probe w pd)) = files w"
  by (simp add: arxiv_probe_def split_beta Let_def
      split: sum.splits option.splits http_result.splits)

lemma files_unpaywall_lookup: "files (snd (unpaywall_lookup w pd)) = files w"
  by (simp add: unpaywall_lookup_def split_beta Let_def
      split: sum.splits option.splits http_result.splits)

lemma files_core_search: "files (snd (core_search w pd)) = files w"
  by (simp add: core_search_def split_beta Let_def
      split: sum.splits option.splits http_result.splits list.splits)

lemma files_try_alternative_sources [simp]: "files (snd (try_alternative_sources w pd)) = files w"
proof -
  obtain r1 w1 where a: "arxiv_probe w pd = (r1, w1)" by (cases "arxiv_probe w pd")
  obtain r2 w2 where u: "unpaywall_lookup w1 pd = (r2, w2)" by (cases "unpaywall_lookup w1 pd")
  obtain r3 w3 where c: "core_search w2 pd = (r3, w3)" by (cases "core_search w2 pd")
  have "files w1 = files w" using files_arxiv_probe[of w pd] a by simp
  moreover have "files w2 = files w1" using files_unpaywall_lookup[of w1 pd] u by simp
  moreover have "files w3 = files w2" using files_core_search[of w2 pd] c by simp
  ultimately show ?thesis
    using a u c
    by (auto simp: try_alternative_sources_def alternative_sources_body_def or_next_def
        split: sum.splits option.splits)
qed

text \<open>A URL the chain returns is never empty.\<close>

lemma arxiv_probe_truthy: "fst (arxiv_probe w pd) = Inr (Some u) \<Longrightarrow> u \<noteq> []"
  by (auto simp: arxiv_probe_def arxiv_url_def split_beta Let_def
      split: sum.splits option.splits http_result.splits if_splits)

lemma unpaywall_lookup_truthy: "fst (unpaywall_lookup w pd) = Inr (Some u) \<Longrightarrow> u \<noteq> []"
  by (auto simp: unpaywall_lookup_def truthy_def split_beta Let_def
      split: sum.splits option.splits http_result.splits if_splits)

lemma core_search_truthy: "fst (core_search w pd) = Inr (Some u) \<Longrightarrow> u \<noteq> []"
  by (auto simp: core_search_def truthy_def split_beta Let_def
      split: sum.splits option.splits http_result.splits if_splits list.splits)

lemma try_alternative_sources_truthy:
  assumes "fst (try_alternative_sources w pd) = Some u"
  shows "u \<noteq> []"
proof -
  obtain r1 w1 where a: "arxiv_probe w pd = (r1, w1)" by (cases "arxiv_probe w pd")
  obtain r2 w2 where b: "unpaywall_lookup w1 pd = (r2, w2)" by (cases "unpaywall_lookup w1 pd")
  obtain r3 w3 where c: "core_search w2 pd = (r3, w3)" by (cases "core_search w2 pd")
  show ?thesis
    using assms a b c arxiv_probe_truthy[of w pd u] unpaywall_lookup_truthy[of w1 pd u]
      core_search_truthy[of w2 pd u]
    by (auto simp: try_alternative_sources_def alternative_sources_body_def or_next_def
        split: sum.splits option.splits)
qed

text \<open>The chain reads \<open>externalIds\<close> only.\<close>

lemma external_id_oa [simp]: "external_id (pd\<lparr>openAccessPdf := x\<rparr>) k = external_id pd k"
  by (simp add: external_id_def)

lemma try_alternative_sources_oa [simp]:
  "try_alternative_sources w (pd\<lparr>openAccessPdf := x\<rparr>) = try_alternative_sources w pd"
  by (simp add: try_alternative_sources_def alternative_sources_body_def arxiv_probe_def
      unpaywall_lookup_def core_search_def)

lemma extract_filename_oa [simp]:
  "extract_filename_from_response r (pd\<lparr>openAccessPdf := x\<rparr>) =
   extract_filename_from_response r pd"
  by (simp add: extract_filename_from_response_def)

lemma choose_path_oa [simp]:
  "choose_path self w r (pd\<lparr>openAccessPdf := x\<rparr>) = choose_path self w r pd"
  by (simp add: choose_path_def)

lemma save_response_oa:
  "save_response self w r (pd\<lparr>openAccessPdf := x\<rparr>) =
     (case save_response self w r pd of (e, pd', w') \<Rightarrow> (e, pd'\<lparr>openAccessPdf := x\<rparr>, w'))"
  by (simp add: save_response_def open_file_def write_body_def Let_def split: option.splits sum.splits)

lemma download_pdf_unfold:
  "download_pdf self w pd =
     (case resolve_pdf_url w pd of
        (None, w1) \<Rightarrow> (False, pd, w1)
      | (Some u, w1) \<Rightarrow>
          if u = [] then (False, pd, w1)
          else (case http_get w1 (get_request u) of
                  (Raises, w2) \<Rightarrow> (False, pd, w2)
                | (Responds r, w2) \<Rightarrow>
                    if status r = 200 then
                      (case save_response self w2 r pd of
                         (Inl e, pd', w3) \<Rightarrow> (False, pd', w3)
                       | (Inr ok, pd', w3) \<Rightarrow> (ok, pd', w3))
                    else (False, pd, w2)))"
  by (simp add: download_pdf_def Let_def split: prod.splits option.splits http_result.splits)

lemma download_pdf_oa:
  assumes "resolve_pdf_url w (pd\<lparr>openAccessPdf := x\<rparr>) = resolve_pdf_url w pd"
  shows "download_pdf self w (pd\<lparr>openAccessPdf := x\<rparr>) =
     (case download_pdf self w pd of (ok, pd', w') \<Rightarrow> (ok, pd'\<lparr>openAccessPdf := x\<rparr>, w'))"
  by (simp add: download_pdf_unfold assms save_response_oa
      split: prod.splits option.splits http_result.splits sum.splits)

lemma resolve_no_url:
  assumes "openAccessPdf pd = Val oa" "get (oa_url oa) = None"
  shows "resolve_pdf_url w pd = try_alternative_sources w pd"
    and "resolve_pdf_url w (pd\<lparr>openAccessPdf := Absent\<rparr>) = resolve_pdf_url w pd"
  using assms by (simp_all add: resolve_pdf_url_def open_access_url_def get_def truthy_def)

lemma download_no_url:
  assumes "openAccessPdf pd = Val oa" "get (oa_url oa) = None"
  shows "fst (download_pdf self w pd) = fst (download_pdf self w (pd\<lparr>openAccessPdf := Absent\<rparr>))"
    and "snd (snd (download_pdf self w pd)) =
         snd (snd (download_pdf self w (pd\<lparr>openAccessPdf := Absent\<rparr>)))"
  by (simp_all add: download_pdf_oa[OF resolve_no_url(2)[OF assms]] split: prod.splits)

lemma trace_arxiv_probe: "trace (snd (arxiv_probe w pd)) = trace w @ arxiv_part pd"
  by (simp add: arxiv_probe_def arxiv_part_def split_beta Let_def
      split: sum.splits option.splits http_result.splits)

lemma trace_unpaywall_lookup: "trace (snd (unpaywall_lookup w pd)) = trace w @ unpaywall_part pd"
  by (simp add: unpaywall_lookup_def unpaywall_part_def split_beta Let_def
      split: sum.splits option.splits http_result.splits)

lemma trace_core_search: "trace (snd (core_search w pd)) = trace w @ core_part pd"
  by (simp add: core_search_def core_part_def split_beta Let_def
      split: sum.splits option.splits http_result.splits list.splits)

lemma trace_body:
  "trace (snd (alternative_sources_body w pd)) \<in>
     {trace w @ arxiv_part pd,
      trace w @ arxiv_part pd @ unpaywall_part pd,
      trace w @ arxiv_part pd @ unpaywall_part pd @ core_part pd}"
proof -
  obtain r1 w1 where a: "arxiv_probe w pd = (r1, w1)" by (cases "arxiv_probe w pd")
  obtain r2 w2 where u: "unpaywall_lookup w1 pd = (r2, w2)" by (cases "unpaywall_lookup w1 pd")
  obtain r3 w3 where c: "core_search w2 pd = (r3, w3)" by (cases "core_search w2 pd")
  have t1: "trace w1 = trace w @ arxiv_part pd"
    using trace_arxiv_probe[of w pd] a by simp
  have t2: "trace w2 = trace w1 @ unpaywall_part pd"
    using trace_unpaywall_lookup[of w1 pd] u by simp
  have t3: "trace w3 = trace w2 @ core_part pd"
    using trace_core_search[of w2 pd] c by simp
  show ?thesis
    using a u c t1 t2 t3
    by (auto simp: alternative_sources_body_def or_next_def split: sum.splits option.splits)
qed

lemma trace_try_alternative_sources:
  "\<exists>k. trace (snd (try_alternative_sources w pd)) = trace w @ take k (fallback_order pd)"
proof -
  have eq: "trace (snd (try_alternative_sources w pd)) = trace (snd (alternative_sources_body w pd))"
    by (simp add: try_alternative_sources_def split: prod.splits sum.splits)
  consider "trace (snd (alternative_sources_body w pd)) = trace w @ arxiv_part pd"
    | "trace (snd (alternative_sources_body w pd)) = trace w @ arxiv_part pd @ unpaywall_part pd"
    | "trace (snd (alternative_sources_body w pd)) =
         trace w @ arxiv_part pd @ unpaywall_part pd @ core_part pd"
    using trace_body[of w pd] by blast
  then show ?thesis
  proof cases
    case 1
    then have "trace (snd (try_alternative_sources w pd)) =
        trace w @ take (length (arxiv_part pd)) (fallback_order pd)"
      by (simp add: eq fallback_order_def)
    then show ?thesis ..
  next
    case 2
    then have "trace (snd (try_alternative_sources w pd)) =
        trace w @ take (length (arxiv_part pd) + length (unpaywall_part pd)) (fallback_order pd)"
      by (simp add: eq fallback_order_def)
    then show ?thesis ..
  next
    case 3
    then have "trace (snd (try_alternative_sources w pd)) =
        trace w @ take (length (fallback_order pd)) (fallback_order pd)"
      by (simp add: eq fallback_order_def)
    then show ?thesis ..
  qed
qed

text \<open>The three providers, one at a time.\<close>

lemma issued_http_get [simp]: "issued (snd (http_get w r)) = Suc (issued w)"
  by (simp add: issued_def)

lemma net_http_get [simp]: "net (snd (http_get w r)) = net w"
  by (simp add: http_get_def split_beta)

lemma fst_http_get [simp]: "fst (http_get w r) = snd (net w (issued w) r)"
  by (simp add: http_get_def split_beta)

lemma arxiv_probe_eq:
  assumes "externalIds pd = Val ext" "ArXiv ext = Val a" "a \<noteq> []"
  shows "arxiv_probe w pd =
     (case snd (net w (issued w) (get_request (arxiv_url a))) of
        Raises \<Rightarrow> Inl ClientError
      | Responds r \<Rightarrow> if status r = 200 then Inr (Some (arxiv_url a)) else Inr None,
      snd (http_get w (get_request (arxiv_url a))))"
  using assms
  by (simp add: arxiv_probe_def external_id_def get_or_def get_def split_beta
      split: http_result.splits)

lemma unpaywall_lookup_eq:
  assumes "externalIds pd = Val ext" "DOI ext = Val d" "d \<noteq> []"
  shows "unpaywall_lookup w pd =
     (case snd (net w (issued w) (get_request (unpaywall_url d))) of
        Raises \<Rightarrow> Inl ClientError
      | Responds r \<Rightarrow>
          if status r = 200 then
            (case as_unpaywall (json r) of
               Inl e \<Rightarrow> Inl e
             | Inr data \<Rightarrow>
                 (case get_or (best_oa_location data) \<lparr>url_for_pdf = Absent\<rparr> of
                    None \<Rightarrow> Inl AttributeError
                  | Some loc \<Rightarrow>
                      if truthy (get (url_for_pdf loc)) then Inr (get (url_for_pdf loc))
                      else Inr None))
          else Inr None,
      snd (http_get w (get_request (unpaywall_url d))))"
  using assms
  by (simp add: unpaywall_lookup_def external_id_def get_or_def get_def split_beta
      split: http_result.splits sum.splits option.splits)

lemma core_search_trace_eq:
  assumes "externalIds pd = Val ext" "DOI ext = Val d" "d \<noteq> []"
  shows "trace (snd (core_search w pd)) = trace w @ [Get (core_request d)]"
  using assms
  by (simp add: trace_core_search core_part_def external_id_def get_or_def get_def)

lemma snd_handler:
  "snd (case x of (Inl e, w1) \<Rightarrow> (None, w1) | (Inr found, w1) \<Rightarrow> (found, w1)) = snd x"
  by (simp split: prod.splits sum.splits)

lemma chain_unfold:
  "try_alternative_sources w pd =
     (case arxiv_probe w pd of
        (Inl e, w1) \<Rightarrow> (None, w1)
      | (Inr (Some u), w1) \<Rightarrow> (Some u, w1)
      | (Inr None, w1) \<Rightarrow>
          (case unpaywall_lookup w1 pd of
             (Inl e, w2) \<Rightarrow> (None, w2)
           | (Inr (Some u), w2) \<Rightarrow> (Some u, w2)
           | (Inr None, w2) \<Rightarrow>
               (case core_search w2 pd of
                  (Inl e, w3) \<Rightarrow> (None, w3)
                | (Inr found, w3) \<Rightarrow> (found, w3))))"
  by (simp add: try_alternative_sources_def alternative_sources_body_def or_next_def
      split: prod.splits sum.splits option.splits)

lemma arxiv_probe_skip:
  assumes "externalIds pd = Val ext" "get (ArXiv ext) = None \<or> ArXiv ext = Val []"
  shows "arxiv_probe w pd = (Inr None, w)"
  using assms by (auto simp: arxiv_probe_def external_id_def get_or_def get_def)


lemma core_search_eq:
  assumes "externalIds pd = Val ext" "DOI ext = Val d" "d \<noteq> []"
  shows "core_search w pd =
     (case snd (net w (issued w) (core_request d)) of
        Raises \<Rightarrow> Inl ClientError
      | Responds r \<Rightarrow>
          if status r = 200 then
            (case as_core (json r) of
               Inl e \<Rightarrow> Inl e
             | Inr data \<Rightarrow>
                 (case get (results data) of
                    None \<Rightarrow> Inr None
                  | Some [] \<Rightarrow> Inr None
                  | Some (first # _) \<Rightarrow>
                      if truthy (get (downloadUrl first)) then Inr (get (downloadUrl first))
                      else Inr None))
          else Inr None,
      snd (http_get w (core_request d)))"
  using assms
  by (simp add: core_search_def external_id_def get_or_def get_def split_beta
      split: http_result.splits sum.splits option.splits list.splits)




lemma both_ids_order:
  assumes "externalIds pd = Val ext" "ArXiv ext = Val a" "a \<noteq> []" "DOI ext = Val d" "d \<noteq> []"
    and "A = get_request (arxiv_url a)" and "U = get_request (unpaywall_url d)"
    and "C = core_request d" and "n = issued w"
  shows "(snd (net w n A) = Responds ra \<and> status ra = 200 \<longrightarrow>
            try_alternative_sources w pd = (Some (arxiv_url a), snd (http_get w A)) \<and>
            trace (snd (try_alternative_sources w pd)) = trace w @ [Get A]) \<and>
         (snd (net w n A) = Responds ra \<and> status ra \<noteq> 200 \<longrightarrow>
            (snd (net w (n + 1) U) = Responds ru \<and> status ru = 200 \<and>
             as_unpaywall (json ru) = Inr data \<and> best_oa_location data = Val loc \<and>
             url_for_pdf loc = Val v \<and> v \<noteq> [] \<longrightarrow>
               fst (try_alternative_sources w pd) = Some v \<and>
               trace (snd (try_alternative_sources w pd)) = trace w @ [Get A, Get U]) \<and>
            (snd (net w (n + 1) U) = Responds ru \<and> status ru \<noteq> 200 \<longrightarrow>
               trace (snd (try_alternative_sources w pd)) = trace w @ [Get A, Get U, Get C] \<and>
               (snd (net w (n + 2) C) = Responds rc \<and> status rc = 200 \<and>
                as_core (json rc) = Inr found \<and> results found = Val (first # rest) \<and>
                downloadUrl first = Val c \<and> c \<noteq> [] \<longrightarrow>
                  fst (try_alternative_sources w pd) = Some c) \<and>
               (snd (net w (n + 2) C) = Responds rc \<and> status rc \<noteq> 200 \<longrightarrow>
                  fst (try_alternative_sources w pd) = None)))"
proof -
  note a = arxiv_probe_eq[OF assms(1,2,3)]
  note u = unpaywall_lookup_eq[OF assms(1,4,5)]
  note c = core_search_eq[OF assms(1,4,5)]
  have 1: "try_alternative_sources w pd = (Some (arxiv_url a), snd (http_get w A)) \<and>
      trace (snd (try_alternative_sources w pd)) = trace w @ [Get A]"
    if "snd (net w n A) = Responds ra" "status ra = 200"
    using that assms(6,9) by (simp add: chain_unfold a)
  have 2: "fst (try_alternative_sources w pd) = Some v \<and>
      trace (snd (try_alternative_sources w pd)) = trace w @ [Get A, Get U]"
    if "snd (net w n A) = Responds ra" "status ra \<noteq> 200"
      "snd (net w (n + 1) U) = Responds ru" "status ru = 200"
      "as_unpaywall (json ru) = Inr data" "best_oa_location data = Val loc"
      "url_for_pdf loc = Val v" "v \<noteq> []"
    using that assms(6,7,9) by (simp add: chain_unfold a u get_or_def get_def truthy_def)
  have 3: "trace (snd (try_alternative_sources w pd)) = trace w @ [Get A, Get U, Get C]"
    if "snd (net w n A) = Responds ra" "status ra \<noteq> 200"
      "snd (net w (n + 1) U) = Responds ru" "status ru \<noteq> 200"
    using that assms(6,7,8,9)
    by (simp add: chain_unfold a u core_search_trace_eq[OF assms(1,4,5)] snd_handler)
  have 4: "fst (try_alternative_sources w pd) = Some c"
    if "snd (net w n A) = Responds ra" "status ra \<noteq> 200"
      "snd (net w (n + 1) U) = Responds ru" "status ru \<noteq> 200"
      "snd (net w (n + 2) C) = Responds rc" "status rc = 200"
      "as_core (json rc) = Inr found" "results found = Val (first # rest)"
      "downloadUrl first = Val c" "c \<noteq> []"
    using that assms(6,7,8,9) by (simp add: chain_unfold a u c get_def truthy_def)
  have 5: "fst (try_alternative_sources w pd) = None"
    if "snd (net w n A) = Responds ra" "status ra \<noteq> 200"
      "snd (net w (n + 1) U) = Responds ru" "status ru \<noteq> 200"
      "snd (net w (n + 2) C) = Responds rc" "status rc \<noteq> 200"
    using that assms(6,7,8,9) by (simp add: chain_unfold a u c)
  show ?thesis
    using 1 2 3 4 5 by blast
qed

lemma one_id_order:
  assumes "externalIds pd = Val ext"
  shows "(get (ArXiv ext) = None \<and> DOI ext = Val d \<and> d \<noteq> [] \<and>
          snd (net w (issued w) (get_request (unpaywall_url d))) = Responds ru \<and>
          status ru \<noteq> 200 \<longrightarrow>
            trace (snd (try_alternative_sources w pd)) =
              trace w @ [Get (get_request (unpaywall_url d)), Get (core_request d)]) \<and>
         (ArXiv ext = Val a \<and> a \<noteq> [] \<and> get (DOI ext) = None \<and>
          snd (net w (issued w) (get_request (arxiv_url a))) = Responds ra \<and>
          status ra \<noteq> 200 \<longrightarrow>
            try_alternative_sources w pd = (None, snd (http_get w (get_request (arxiv_url a)))))"
proof -
  have 1: "trace (snd (try_alternative_sources w pd)) =
        trace w @ [Get (get_request (unpaywall_url d)), Get (core_request d)]"
    if none: "get (ArXiv ext) = None" and doi: "DOI ext = Val d" "d \<noteq> []"
      and answer: "snd (net w (issued w) (get_request (unpaywall_url d))) = Responds ru"
        "status ru \<noteq> 200"
    using answer arxiv_probe_skip[OF assms, of w] none
    by (simp add: chain_unfold unpaywall_lookup_eq[OF assms doi]
        core_search_trace_eq[OF assms doi] snd_handler)
  have 2: "try_alternative_sources w pd = (None, snd (http_get w (get_request (arxiv_url a))))"
    if id: "ArXiv ext = Val a" "a \<noteq> []" and none: "get (DOI ext) = None"
      and answer: "snd (net w (issued w) (get_request (arxiv_url a))) = Responds ra"
        "status ra \<noteq> 200"
    using answer none assms
    by (simp add: chain_unfold arxiv_probe_eq[OF assms id] unpaywall_lookup_def core_search_def
        external_id_def get_or_def)
  show ?thesis
    using 1 2 by blast
qed




text \<open>A paper with both identifiers and servers for it.\<close>

definition both_ids :: external_ids where
  "both_ids = \<lparr>ArXiv = Val ''2101.00001'', DOI = Val ''10.1000/x''\<rparr>"

definition c3_paper :: paper_data where
  "c3_paper = no_paper_keys\<lparr>externalIds := Val both_ids\<rparr>"

definition unpaywall_answer :: "unpaywall_location field \<Rightarrow> response" where
  "unpaywall_answer loc = \<lparr>status = 200, content_disposition = None, url_path = [],
     json = UnpaywallDoc \<lparr>best_oa_location = loc\<rparr>, content = Some []\<rparr>"

definition plain :: "int \<Rightarrow> response" where
  "plain code = \<lparr>status = code, content_disposition = None, url_path = [],
     json = NotJson, content = Some ''%PDF''\<rparr>"


definition doi_paper :: paper_data where
  "doi_paper = no_paper_keys\<lparr>externalIds := Val \<lparr>ArXiv = Absent, DOI = Val ''10.1000/x''\<rparr>\<rparr>"

definition core_answer :: "core_work list field \<Rightarrow> response" where
  "core_answer rs = \<lparr>status = 200, content_disposition = None, url_path = [],
     json = CoreDoc \<lparr>results = rs\<rparr>, content = Some []\<rparr>"


text \<open>arXiv and Unpaywall have nothing; CORE times out.\<close>

definition core_down_net :: "nat \<Rightarrow> request \<Rightarrow> real \<times> http_result" where
  "core_down_net n r =
     (0, if r = core_request ''10.1000/x'' then Raises else Responds (plain 404))"

definition world_of :: "(nat \<Rightarrow> request \<Rightarrow> real \<times> http_result) \<Rightarrow> world" where
  "world_of f = \<lparr>net = f, clock = 1000, files = [], dirs = [''papers''],
     writable = (\<lambda>p. True), trace = []\<rparr>"

lemmas resolver_defs =
  try_alternative_sources_def alternative_sources_body_def or_next_def arxiv_probe_def
  unpaywall_lookup_def core_search_def external_id_def get_or_def get_def truthy_def
  http_get_def issued_def get_request_def core_request_def as_unpaywall_def as_core_def
  Let_def




lemma trace_save_response:
  "filter is_get (drop (length (trace w)) (trace (snd (snd (save_response self w r pd))))) = []"
  by (simp add: save_response_def open_file_def write_body_def Let_def split: option.splits sum.splits)

lemma open_access_wins:
  assumes "openAccessPdf pd = Val oa" "oa_url oa = Val u" "u \<noteq> []"
  shows "resolve_pdf_url w pd = (Some u, w)"
    and "filter is_get (drop (length (trace w)) (trace (snd (snd (download_pdf self w pd))))) =
           [Get (get_request u)]"
proof -
  show r: "resolve_pdf_url w pd = (Some u, w)"
    using assms by (simp add: resolve_pdf_url_def open_access_url_def get_def truthy_def)
  obtain res w2 where g: "http_get w (get_request u) = (res, w2)"
    by (cases "http_get w (get_request u)")
  have t2: "trace w2 = trace w @ [Get (get_request u)]"
    using trace_http_get[of w "get_request u"] g by simp
  show "filter is_get (drop (length (trace w)) (trace (snd (snd (download_pdf self w pd))))) =
           [Get (get_request u)]"
  proof (cases res)
    case Raises
    then show ?thesis
      using assms(3) g t2 by (simp add: download_pdf_unfold r)
  next
    case (Responds a)
    show ?thesis
    proof (cases "status a = 200")
      case False
      then show ?thesis
        using assms(3) g t2 Responds by (simp add: download_pdf_unfold r)
    next
      case True
      obtain e pd' w3 where s: "save_response self w2 a pd = (e, pd', w3)"
        by (cases "save_response self w2 a pd")
      have "filter is_get (drop (length (trace w2)) (trace w3)) = []"
        using trace_save_response[of w2 self a pd] s by simp
      moreover have "\<exists>rest. trace w3 = trace w2 @ rest"
        using s by (auto simp: save_response_def open_file_def write_body_def Let_def split: option.splits if_splits sum.splits)
      ultimately have "filter is_get (drop (length (trace w)) (trace w3)) = [Get (get_request u)]"
        using t2 by auto
      moreover have "snd (snd (download_pdf self w pd)) = w3"
        using assms(3) g Responds True s
        by (simp add: download_pdf_unfold r split: sum.splits)
      ultimately show ?thesis by simp
    qed
  qed
qed

text \<open>
  C6: for metadata with a non-empty \<^verbatim>\<open>openAccessPdf\<close> URL (with or without an arXiv id),
  the resolution returns that URL without any request, and the only request of the whole
  download is the one for that URL. For any metadata, the resolution makes a request only
  when there is no usable \<^verbatim>\<open>openAccessPdf\<close> URL; it is then the fallback chain, whose
  requests are an initial part of: arXiv, Unpaywall by DOI, CORE by DOI. For metadata with an
  arXiv id and a DOI the chain does this, the first success ending it:
  \<^item> the first request is the arXiv probe, and an answer 200 gives the arXiv URL;
  \<^item> otherwise the second request is the Unpaywall lookup, and an answer 200 that names a
    PDF URL gives that URL;
  \<^item> otherwise (here: Unpaywall answers with another status) the third request is the CORE
    search, and the result is the download URL of its first result, or \<^verbatim>\<open>None\<close>.
  For metadata with a DOI only the chain starts with Unpaywall and goes on to CORE; with an
  arXiv id only it ends after the probe.
\<close>

theorem resolver_priority:
  assumes "openAccessPdf pd = Val oa" and "oa_url oa = Val u" and "u \<noteq> []"
    and "externalIds pd2 = Val ext" and "ArXiv ext = Val a" and "a \<noteq> []"
    and "DOI ext = Val d" and "d \<noteq> []"
    and "A = get_request (arxiv_url a)" and "U = get_request (unpaywall_url d)"
    and "C = core_request d" and "n = issued w2"
    and "externalIds pd1 = Val ext1"
  shows "resolve_pdf_url w pd = (Some u, w) \<and>
         filter is_get (drop (length (trace w)) (trace (snd (snd (download_pdf self w pd))))) =
           [Get (get_request u)] \<and>
         (trace (snd (resolve_pdf_url w' pd')) \<noteq> trace w' \<longrightarrow> \<not> truthy (open_access_url pd')) \<and>
         (\<not> truthy (open_access_url pd') \<longrightarrow>
            resolve_pdf_url w' pd' = try_alternative_sources w' pd') \<and>
         (\<exists>k. trace (snd (try_alternative_sources w' pd')) = trace w' @ take k (fallback_order pd')) \<and>
         (snd (net w2 n A) = Responds ra \<and> status ra = 200 \<longrightarrow>
            try_alternative_sources w2 pd2 = (Some (arxiv_url a), snd (http_get w2 A)) \<and>
            trace (snd (try_alternative_sources w2 pd2)) = trace w2 @ [Get A]) \<and>
         (snd (net w2 n A) = Responds ra \<and> status ra \<noteq> 200 \<longrightarrow>
            (snd (net w2 (n + 1) U) = Responds ru \<and> status ru = 200 \<and>
             as_unpaywall (json ru) = Inr data \<and> best_oa_location data = Val loc \<and>
             url_for_pdf loc = Val v \<and> v \<noteq> [] \<longrightarrow>
               fst (try_alternative_sources w2 pd2) = Some v \<and>
               trace (snd (try_alternative_sources w2 pd2)) = trace w2 @ [Get A, Get U]) \<and>
            (snd (net w2 (n + 1) U) = Responds ru \<and> status ru \<noteq> 200 \<longrightarrow>
               trace (snd (try_alternative_sources w2 pd2)) = trace w2 @ [Get A, Get U, Get C] \<and>
               (snd (net w2 (n + 2) C) = Responds rc \<and> status rc = 200 \<and>
                as_core (json rc) = Inr found \<and> results found = Val (first # rest) \<and>
                downloadUrl first = Val c \<and> c \<noteq> [] \<longrightarrow>
                  fst (try_alternative_sources w2 pd2) = Some c) \<and>
               (snd (net w2 (n + 2) C) = Responds rc \<and> status rc \<noteq> 200 \<longrightarrow>
                  fst (try_alternative_sources w2 pd2) = None))) \<and>
         (get (ArXiv ext1) = None \<and> DOI ext1 = Val d1 \<and> d1 \<noteq> [] \<and>
          snd (net w1 (issued w1) (get_request (unpaywall_url d1))) = Responds ru1 \<and>
          status ru1 \<noteq> 200 \<longrightarrow>
            trace (snd (try_alternative_sources w1 pd1)) =
              trace w1 @ [Get (get_request (unpaywall_url d1)), Get (core_request d1)]) \<and>
         (ArXiv ext1 = Val a1 \<and> a1 \<noteq> [] \<and> get (DOI ext1) = None \<and>
          snd (net w1 (issued w1) (get_request (arxiv_url a1))) = Responds ra1 \<and>
          status ra1 \<noteq> 200 \<longrightarrow>
            try_alternative_sources w1 pd1 =
              (None, snd (http_get w1 (get_request (arxiv_url a1)))))"
proof -
  note first = open_access_wins[OF assms(1,2,3)]
  have only: "trace (snd (resolve_pdf_url w' pd')) \<noteq> trace w' \<longrightarrow> \<not> truthy (open_access_url pd')"
    "\<not> truthy (open_access_url pd') \<longrightarrow> resolve_pdf_url w' pd' = try_alternative_sources w' pd'"
    by (auto simp: resolve_pdf_url_def)
  show ?thesis
    using first[of w] first(2)[of w self] only trace_try_alternative_sources[of w' pd']
      both_ids_order[OF assms(4-12), of ra ru data loc v rc found first rest c]
      one_id_order[OF assms(13), of d1 w1 ru1 a1 ra1]
    by (intro conjI) blast+
qed

definition oa_paper :: paper_data where
  "oa_paper = no_paper_keys\<lparr>
      openAccessPdf := Val \<lparr>oa_url = Val ''http://x/r.pdf'', oa_status = Val ''GOLD''\<rparr>,
      externalIds := Val both_ids\<rparr>"

definition all_ok_net :: "nat \<Rightarrow> request \<Rightarrow> real \<times> http_result" where
  "all_ok_net n r = (0, Responds (plain 200))"

text \<open>arXiv has no copy; Unpaywall names a PDF.\<close>

definition unpaywall_has_net :: "nat \<Rightarrow> request \<Rightarrow> real \<times> http_result" where
  "unpaywall_has_net n r =
     (0, if req_url r = unpaywall_url ''10.1000/x''
         then Responds (unpaywall_answer (Val \<lparr>url_for_pdf = Val ''http://oa.example/p.pdf''\<rparr>))
         else Responds (plain 404))"

text \<open>Neither arXiv nor Unpaywall has a copy; CORE names a PDF.\<close>

definition core_has_net :: "nat \<Rightarrow> request \<Rightarrow> real \<times> http_result" where
  "core_has_net n r =
     (0, if r = core_request ''10.1000/x''
         then Responds (core_answer (Val [\<lparr>downloadUrl = Val ''http://core.example/p.pdf''\<rparr>]))
         else Responds (plain 404))"

theorem resolver_priority_witness:
  "resolve_pdf_url (world_of all_ok_net) oa_paper = (Some ''http://x/r.pdf'', world_of all_ok_net) \<and>
   filter is_get (trace (snd (snd (download_pdf (init ''papers'' None) (world_of all_ok_net)
      oa_paper)))) = [Get (get_request ''http://x/r.pdf'')] \<and>
   \<not> truthy (open_access_url c3_paper) \<and>
   resolve_pdf_url (world_of all_ok_net) c3_paper =
     try_alternative_sources (world_of all_ok_net) c3_paper \<and>
   try_alternative_sources (world_of all_ok_net) c3_paper =
     (Some (arxiv_url ''2101.00001''),
      snd (http_get (world_of all_ok_net) (get_request (arxiv_url ''2101.00001'')))) \<and>
   trace (snd (try_alternative_sources (world_of all_ok_net) c3_paper)) =
     [Get (get_request (arxiv_url ''2101.00001''))] \<and>
   fst (try_alternative_sources (world_of unpaywall_has_net) c3_paper) =
     Some ''http://oa.example/p.pdf'' \<and>
   trace (snd (try_alternative_sources (world_of unpaywall_has_net) c3_paper)) =
     [Get (get_request (arxiv_url ''2101.00001'')),
      Get (get_request (unpaywall_url ''10.1000/x''))] \<and>
   fst (try_alternative_sources (world_of core_has_net) c3_paper) =
     Some ''http://core.example/p.pdf'' \<and>
   trace (snd (try_alternative_sources (world_of core_has_net) c3_paper)) =
     [Get (get_request (arxiv_url ''2101.00001'')),
      Get (get_request (unpaywall_url ''10.1000/x'')), Get (core_request ''10.1000/x'')] \<and>
   trace (snd (try_alternative_sources (world_of core_down_net) doi_paper)) =
     [Get (get_request (unpaywall_url ''10.1000/x'')), Get (core_request ''10.1000/x'')]"
proof -
  let ?oa = "\<lparr>oa_url = Val ''http://x/r.pdf'', oa_status = Val ''GOLD''\<rparr>"
  let ?one = "\<lparr>ArXiv = Absent, DOI = Val ''10.1000/x''\<rparr>"
  have oa: "openAccessPdf oa_paper = Val ?oa" "oa_url ?oa = Val ''http://x/r.pdf''"
    "''http://x/r.pdf'' \<noteq> []"
    by (simp_all add: oa_paper_def no_paper_keys_def)
  have ids: "externalIds c3_paper = Val both_ids" "ArXiv both_ids = Val ''2101.00001''"
    "''2101.00001'' \<noteq> []" "DOI both_ids = Val ''10.1000/x''" "''10.1000/x'' \<noteq> []"
    by (simp_all add: c3_paper_def both_ids_def no_paper_keys_def)
  have one: "externalIds doi_paper = Val ?one"
    by (simp add: doi_paper_def no_paper_keys_def)
  note t = resolver_priority[OF oa ids refl refl refl refl one,
      where w = "world_of all_ok_net" and self = "init ''papers'' None"
        and w' = "world_of all_ok_net" and pd' = c3_paper
        and ?w1.0 = "world_of core_down_net" and ?d1.0 = "''10.1000/x''" and ?ru1.0 = "plain 404"]
  have 1: "resolve_pdf_url (world_of all_ok_net) oa_paper =
        (Some ''http://x/r.pdf'', world_of all_ok_net) \<and>
      filter is_get (trace (snd (snd (download_pdf (init ''papers'' None) (world_of all_ok_net)
        oa_paper)))) = [Get (get_request ''http://x/r.pdf'')] \<and>
      \<not> truthy (open_access_url c3_paper) \<and>
      resolve_pdf_url (world_of all_ok_net) c3_paper =
        try_alternative_sources (world_of all_ok_net) c3_paper \<and>
      try_alternative_sources (world_of all_ok_net) c3_paper =
        (Some (arxiv_url ''2101.00001''),
         snd (http_get (world_of all_ok_net) (get_request (arxiv_url ''2101.00001'')))) \<and>
      trace (snd (try_alternative_sources (world_of all_ok_net) c3_paper)) =
        [Get (get_request (arxiv_url ''2101.00001''))] \<and>
      trace (snd (try_alternative_sources (world_of core_down_net) doi_paper)) =
        [Get (get_request (unpaywall_url ''10.1000/x'')), Get (core_request ''10.1000/x'')]"
    using t[where ?w2.0 = "world_of all_ok_net" and ra = "plain 200"]
    by (simp add: c3_paper_def no_paper_keys_def world_of_def open_access_url_def get_def
        truthy_def all_ok_net_def core_down_net_def issued_def plain_def get_request_def
        core_request_def unpaywall_url_def)
  have 2: "fst (try_alternative_sources (world_of unpaywall_has_net) c3_paper) =
        Some ''http://oa.example/p.pdf'' \<and>
      trace (snd (try_alternative_sources (world_of unpaywall_has_net) c3_paper)) =
        [Get (get_request (arxiv_url ''2101.00001'')),
         Get (get_request (unpaywall_url ''10.1000/x''))]"
    using t[where ?w2.0 = "world_of unpaywall_has_net" and ra = "plain 404"
        and ru = "unpaywall_answer (Val \<lparr>url_for_pdf = Val ''http://oa.example/p.pdf''\<rparr>)"
        and data = "\<lparr>best_oa_location = Val \<lparr>url_for_pdf = Val ''http://oa.example/p.pdf''\<rparr>\<rparr>"
        and loc = "\<lparr>url_for_pdf = Val ''http://oa.example/p.pdf''\<rparr>"
        and v = "''http://oa.example/p.pdf''"]
    by (simp add: world_of_def unpaywall_has_net_def issued_def plain_def get_request_def
        unpaywall_url_def arxiv_url_def unpaywall_answer_def as_unpaywall_def)
  have 3: "fst (try_alternative_sources (world_of core_has_net) c3_paper) =
        Some ''http://core.example/p.pdf'' \<and>
      trace (snd (try_alternative_sources (world_of core_has_net) c3_paper)) =
        [Get (get_request (arxiv_url ''2101.00001'')),
         Get (get_request (unpaywall_url ''10.1000/x'')), Get (core_request ''10.1000/x'')]"
    using t[where ?w2.0 = "world_of core_has_net" and ra = "plain 404" and ru = "plain 404"
        and rc = "core_answer (Val [\<lparr>downloadUrl = Val ''http://core.example/p.pdf''\<rparr>])"
        and found = "\<lparr>results = Val [\<lparr>downloadUrl = Val ''http://core.example/p.pdf''\<rparr>]\<rparr>"
        and first = "\<lparr>downloadUrl = Val ''http://core.example/p.pdf''\<rparr>" and rest = "[]"
        and c = "''http://core.example/p.pdf''"]
    by (simp add: world_of_def core_has_net_def issued_def plain_def get_request_def
        core_request_def unpaywall_url_def arxiv_url_def core_answer_def as_core_def)
  show ?thesis
    using 1 2 3 by blast
qed

text \<open>The download after the resolution.\<close>

lemma download_after_resolve:
  assumes "resolve_pdf_url w pd = (Some u, w1)" "u \<noteq> []"
  shows "take (Suc (length (trace w1))) (trace (snd (snd (download_pdf self w pd)))) =
           trace w1 @ [Get (get_request u)]"
proof -
  obtain res w2 where g: "http_get w1 (get_request u) = (res, w2)"
    by (cases "http_get w1 (get_request u)")
  have t2: "trace w2 = trace w1 @ [Get (get_request u)]"
    using trace_http_get[of w1 "get_request u"] g by simp
  have "\<exists>rest. trace (snd (snd (download_pdf self w pd))) = trace w2 @ rest"
    using assms g
    by (auto simp: download_pdf_unfold save_response_def open_file_def write_body_def Let_def
        split: http_result.splits option.splits sum.splits if_splits prod.splits)
  then show ?thesis
    using t2 by auto
qed

text \<open>
  C10: for metadata whose \<^verbatim>\<open>openAccessPdf\<close> object has no \<^verbatim>\<open>url\<close> (absent or \<^verbatim>\<open>null\<close>),
  \<open>download_pdf\<close> gives the same outcome and leaves the same world as for the metadata
  without \<^verbatim>\<open>openAccessPdf\<close>: the missing URL is not used, the URL comes from the fallback
  chain. When the chain yields no URL either, the download fails for want of a source, at
  once and with no further request. When the chain yields a URL, it is not empty and the
  next request is the download of it.
\<close>

theorem absent_url_falls_through:
  assumes "openAccessPdf pd = Val oa" and "get (oa_url oa) = None"
  shows "fst (download_pdf self w pd) = fst (download_pdf self w (pd\<lparr>openAccessPdf := Absent\<rparr>)) \<and>
         snd (snd (download_pdf self w pd)) =
           snd (snd (download_pdf self w (pd\<lparr>openAccessPdf := Absent\<rparr>))) \<and>
         resolve_pdf_url w pd = try_alternative_sources w pd \<and>
         (fst (try_alternative_sources w pd) = None \<longrightarrow>
            download_pdf self w pd = (False, pd, snd (try_alternative_sources w pd))) \<and>
         (fst (try_alternative_sources w pd) = Some u \<longrightarrow>
            u \<noteq> [] \<and>
            take (Suc (length (trace (snd (try_alternative_sources w pd)))))
                 (trace (snd (snd (download_pdf self w pd)))) =
              trace (snd (try_alternative_sources w pd)) @ [Get (get_request u)])"
proof -
  note r = resolve_no_url(1)[OF assms, of w]
  have none: "fst (try_alternative_sources w pd) = None \<Longrightarrow>
      download_pdf self w pd = (False, pd, snd (try_alternative_sources w pd))"
    by (cases "try_alternative_sources w pd") (simp add: download_pdf_unfold r)
  have some: "fst (try_alternative_sources w pd) = Some u \<Longrightarrow>
      u \<noteq> [] \<and>
      take (Suc (length (trace (snd (try_alternative_sources w pd)))))
           (trace (snd (snd (download_pdf self w pd)))) =
        trace (snd (try_alternative_sources w pd)) @ [Get (get_request u)]"
  proof -
    assume a: "fst (try_alternative_sources w pd) = Some u"
    then have u: "u \<noteq> []"
      by (rule try_alternative_sources_truthy)
    have "resolve_pdf_url w pd = (Some u, snd (try_alternative_sources w pd))"
      using a r by (cases "try_alternative_sources w pd") simp
    from download_after_resolve[OF this u] u show ?thesis
      by simp
  qed
  show ?thesis
    using download_no_url[OF assms, of self w] r none some by blast
qed

definition no_url_paper :: paper_data where
  "no_url_paper = no_paper_keys\<lparr>
      openAccessPdf := Val \<lparr>oa_url = Null, oa_status = Val ''CLOSED''\<rparr>,
      externalIds := Val \<lparr>ArXiv = Val ''2101.00001'', DOI = Absent\<rparr>\<rparr>"

text \<open>The arXiv probe is answered 200, every later request 503.\<close>

definition flaky_net :: "nat \<Rightarrow> request \<Rightarrow> real \<times> http_result" where
  "flaky_net n r = (0, Responds (plain (if n = 0 then 200 else 503)))"

theorem absent_url_falls_through_witness:
  "fst (try_alternative_sources (world_of flaky_net) no_url_paper) =
     Some (arxiv_url ''2101.00001'') \<and>
   take 2 (trace (snd (snd (download_pdf (init ''papers'' None) (world_of flaky_net)
      no_url_paper)))) =
     [Get (get_request (arxiv_url ''2101.00001'')), Get (get_request (arxiv_url ''2101.00001''))] \<and>
   fst (try_alternative_sources (world_of flaky_net) (no_url_paper\<lparr>externalIds := Absent\<rparr>)) = None \<and>
   download_pdf (init ''papers'' None) (world_of flaky_net) (no_url_paper\<lparr>externalIds := Absent\<rparr>) =
     (False, no_url_paper\<lparr>externalIds := Absent\<rparr>, world_of flaky_net)"
  using
    absent_url_falls_through[where pd = no_url_paper
      and oa = "\<lparr>oa_url = Null, oa_status = Val ''CLOSED''\<rparr>"
      and w = "world_of flaky_net" and u = "arxiv_url ''2101.00001''"
      and self = "init ''papers'' None"]
    absent_url_falls_through[where pd = "no_url_paper\<lparr>externalIds := Absent\<rparr>"
      and oa = "\<lparr>oa_url = Null, oa_status = Val ''CLOSED''\<rparr>"
      and w = "world_of flaky_net" and u = "arxiv_url ''2101.00001''"
      and self = "init ''papers'' None"]
  by (simp add: resolver_defs download_pdf_def resolve_pdf_url_def open_access_url_def
      no_url_paper_def no_paper_keys_def world_of_def flaky_net_def plain_def arxiv_url_def)

section \<open>File name collisions\<close>

text \<open>The loop returns a path that does not exist, the first free one in the order it tries.\<close>

lemma free_path_free: "\<not> path_exists w (free_path w base ext filepath counter)"
proof (induction w base ext filepath counter rule: free_path.induct)
  case (1 w base ext filepath counter)
  then show ?case
    by (subst free_path.simps) simp
qed

lemma free_path_here: "\<not> path_exists w filepath \<Longrightarrow> free_path w base ext filepath counter = filepath"
  by (subst free_path.simps) simp

lemma free_path_skip:
  assumes "path_exists w filepath"
    and "\<forall>j. counter \<le> j \<and> j < k \<longrightarrow> path_exists w (candidate base ext j)"
    and "\<not> path_exists w (candidate base ext k)" and "counter \<le> k"
  shows "free_path w base ext filepath counter = candidate base ext k"
  using assms
proof (induction "k - counter" arbitrary: counter filepath)
  case 0
  then have "counter = k" by simp
  then show ?case
    using 0 by (subst free_path.simps) (simp add: free_path_here)
next
  case (Suc n)
  then have lt: "counter < k" by simp
  then have ex: "path_exists w (candidate base ext counter)"
    using Suc.prems(2) by simp
  have "free_path w base ext (candidate base ext counter) (Suc counter) = candidate base ext k"
    using Suc.hyps(2) lt Suc.prems(2,3) ex
    by (intro Suc.hyps(1)) auto
  then show ?case
    using Suc.prems(1) by (subst free_path.simps) simp
qed

lemma target_path_free: "\<not> path_exists w (target_path self w filename)"
  by (simp add: target_path_def Let_def split_beta free_path_free)

lemma choose_path_free: "\<not> path_exists w (choose_path self w r pd)"
  by (simp add: choose_path_def target_path_free)

text \<open>A download that no other task interrupts is \<open>download_pdf\<close>.\<close>

lemma begin_download_finished:
  assumes "begin_download self w pd = (Finished ok pd', w1)"
  shows "download_pdf self w pd = (ok, pd', w1)"
  using assms
  by (auto simp: begin_download_def download_pdf_def Let_def
      split: prod.splits option.splits http_result.splits if_splits)

lemma begin_download_opening:
  assumes "begin_download self w pd = (Opening pd' r filepath, w1)"
  shows "pd' = pd \<and> filepath = choose_path self w1 r pd \<and>
         download_pdf self w pd =
           (case save_response self w1 r pd of
              (Inl e, pd', w3) \<Rightarrow> (False, pd', w3)
            | (Inr ok, pd', w3) \<Rightarrow> (ok, pd', w3))"
  using assms
  by (auto simp: begin_download_def download_pdf_def Let_def
      split: prod.splits option.splits http_result.splits if_splits)

lemma begin_download_shape:
  "(\<exists>ok pd'. fst (begin_download self w pd) = Finished ok pd') \<or>
   (\<exists>pd' r filepath. fst (begin_download self w pd) = Opening pd' r filepath)"
  by (auto simp: begin_download_def Let_def
      split: prod.splits option.splits http_result.splits if_splits)

lemma step_finished:
  "i < length (dl_tasks s) \<Longrightarrow> dl_tasks s ! i = Finished ok pd \<Longrightarrow> download_step i s = s"
  by (simp add: download_step_def)

lemma step_opening:
  assumes "i < length (dl_tasks s)" "dl_tasks s ! i = Opening pd r filepath"
  shows "download_step i s =
     (case open_file (dl_env s) filepath of
        Inl e \<Rightarrow> s\<lparr>dl_tasks := (dl_tasks s)[i := Finished False pd]\<rparr>
      | Inr w1 \<Rightarrow> s\<lparr>dl_env := w1, dl_tasks := (dl_tasks s)[i := Writing pd r filepath]\<rparr>)"
  using assms by (simp add: download_step_def)

lemma step_writing:
  assumes "i < length (dl_tasks s)" "dl_tasks s ! i = Writing pd r filepath"
  shows "download_step i s =
     (case write_body (dl_env s) r filepath of
        Inl e \<Rightarrow> s\<lparr>dl_tasks := (dl_tasks s)[i := Finished False pd]\<rparr>
      | Inr w1 \<Rightarrow>
          s\<lparr>dl_env := w1,
            dl_tasks := (dl_tasks s)[i :=
              Finished True (pd\<lparr>saved_filename := Val (basename filepath)\<rparr>)]\<rparr>)"
  using assms by (simp add: download_step_def)

lemma download_alone:
  assumes "i < length (dl_tasks s)" and "dl_tasks s ! i = Called pd"
    and "download_pdf (dl_fetcher s) (dl_env s) pd = (ok, pd', w')"
  shows "download_run [i, i, i] s = s\<lparr>dl_env := w', dl_tasks := (dl_tasks s)[i := Finished ok pd']\<rparr>"
proof -
  obtain t w1 where b: "begin_download (dl_fetcher s) (dl_env s) pd = (t, w1)"
    by (cases "begin_download (dl_fetcher s) (dl_env s) pd")
  let ?s1 = "s\<lparr>dl_env := w1, dl_tasks := (dl_tasks s)[i := t]\<rparr>"
  have s1: "download_step i s = ?s1"
    using assms(1,2) b by (simp add: download_step_def)
  have run: "download_run [i, i, i] s = download_step i (download_step i ?s1)"
    by (simp add: download_run_def s1)
  have len: "i < length (dl_tasks ?s1)" and at: "dl_tasks ?s1 ! i = t"
    using assms(1) by simp_all
  consider (ended) ok1 pd1 where "t = Finished ok1 pd1"
    | (chosen) pd1 r filepath where "t = Opening pd1 r filepath"
    using begin_download_shape[of "dl_fetcher s" "dl_env s" pd] b by auto
  then show ?thesis
  proof cases
    case ended
    then have "ok1 = ok \<and> pd1 = pd' \<and> w1 = w'"
      using begin_download_finished[of "dl_fetcher s" "dl_env s" pd ok1 pd1 w1] b assms(3) by simp
    moreover have "download_step i ?s1 = ?s1"
      using len at ended by (intro step_finished) auto
    ultimately show ?thesis
      using ended by (simp add: run)
  next
    case chosen
    note o = begin_download_opening[of "dl_fetcher s" "dl_env s" pd pd1 r filepath w1]
    have pd1: "pd1 = pd" and path: "filepath = choose_path (dl_fetcher s) w1 r pd"
      and dl: "download_pdf (dl_fetcher s) (dl_env s) pd =
           (case save_response (dl_fetcher s) w1 r pd of
              (Inl e, pd', w3) \<Rightarrow> (False, pd', w3)
            | (Inr ok, pd', w3) \<Rightarrow> (ok, pd', w3))"
      using o b chosen by simp_all
    have s2: "download_step i ?s1 =
       (case open_file w1 filepath of
          Inl e \<Rightarrow> ?s1\<lparr>dl_tasks := (dl_tasks ?s1)[i := Finished False pd]\<rparr>
        | Inr w2 \<Rightarrow> ?s1\<lparr>dl_env := w2, dl_tasks := (dl_tasks ?s1)[i := Writing pd r filepath]\<rparr>)"
      using step_opening[OF len, of pd r filepath] at chosen pd1 by simp
    show ?thesis
    proof (cases "open_file w1 filepath")
      case (Inl e)
      then have "download_step i ?s1 = s\<lparr>dl_env := w1, dl_tasks := (dl_tasks s)[i := Finished False pd]\<rparr>"
        using s2 by simp
      moreover have "download_step i (s\<lparr>dl_env := w1, dl_tasks := (dl_tasks s)[i := Finished False pd]\<rparr>) =
          s\<lparr>dl_env := w1, dl_tasks := (dl_tasks s)[i := Finished False pd]\<rparr>"
        using assms(1) by (intro step_finished[where ok = False and pd = pd]) simp_all
      moreover have "download_pdf (dl_fetcher s) (dl_env s) pd = (False, pd, w1)"
        using Inl path by (simp add: dl save_response_def Let_def)
      ultimately show ?thesis
        using assms(3) by (simp add: run)
    next
      case (Inr w2)
      let ?s2 = "s\<lparr>dl_env := w2, dl_tasks := (dl_tasks s)[i := Writing pd r filepath]\<rparr>"
      have e2: "download_step i ?s1 = ?s2"
        using s2 Inr by simp
      have s3: "download_step i ?s2 =
         (case write_body w2 r filepath of
            Inl e \<Rightarrow> ?s2\<lparr>dl_tasks := (dl_tasks ?s2)[i := Finished False pd]\<rparr>
          | Inr w3 \<Rightarrow>
              ?s2\<lparr>dl_env := w3,
                dl_tasks := (dl_tasks ?s2)[i :=
                  Finished True (pd\<lparr>saved_filename := Val (basename filepath)\<rparr>)]\<rparr>)"
        using step_writing[of i ?s2 pd r filepath] assms(1) by simp
      have saved: "save_response (dl_fetcher s) w1 r pd =
         (case write_body w2 r filepath of
            Inl e \<Rightarrow> (Inl e, pd, w2)
          | Inr w3 \<Rightarrow> (Inr True, pd\<lparr>saved_filename := Val (basename filepath)\<rparr>, w3))"
        using Inr unfolding path by (simp add: save_response_def Let_def)
      show ?thesis
      proof (cases "write_body w2 r filepath")
        case (Inl e)
        then have "download_step i ?s2 =
            s\<lparr>dl_env := w2, dl_tasks := (dl_tasks s)[i := Finished False pd]\<rparr>"
          by (simp add: s3)
        moreover have "(ok, pd', w') = (False, pd, w2)"
          using assms(3) Inl by (simp add: dl saved)
        ultimately show ?thesis
          by (simp add: run e2)
      next
        case (Inr w3)
        then have "download_step i ?s2 =
            s\<lparr>dl_env := w3, dl_tasks := (dl_tasks s)[i :=
              Finished True (pd\<lparr>saved_filename := Val (basename filepath)\<rparr>)]\<rparr>"
          by (simp add: s3)
        moreover have "(ok, pd', w') =
            (True, pd\<lparr>saved_filename := Val (basename filepath)\<rparr>, w3)"
          using assms(3) Inr by (simp add: dl saved)
        ultimately show ?thesis
          by (simp add: run e2)
      qed
    qed
  qed
qed

lemma str_nat_1: "str_nat (Suc 0) = ''1''"
  by (subst str_nat.simps) (simp add: digit_def)

lemma candidate_1:
  "candidate base ext (Suc 0) = base @ ''_1'' @ ext"
  "candidate base ext 1 = base @ ''_1'' @ ext"
  by (simp_all add: candidate_def str_nat_1)

text \<open>
  With files suffixed \<^verbatim>\<open>_k\<close> on disk but none suffixed \<^verbatim>\<open>_1\<close>, the next download takes
  the suffix \<^verbatim>\<open>_1\<close>: the suffix counts the colliding files only when their suffixes have
  no gap.
\<close>

lemma gap_is_filled:
  assumes "splitext (path_join (output_dir self) filename) = (base, ext)"
    and "path_exists w (path_join (output_dir self) filename)"
    and "\<not> path_exists w (base @ ''_1'' @ ext)"
  shows "target_path self w filename = base @ ''_1'' @ ext"
proof -
  have "free_path w base ext (path_join (output_dir self) filename) 1 = candidate base ext 1"
    using assms(2,3) by (intro free_path_skip) (auto simp: candidate_1)
  then show ?thesis
    using assms(1) by (simp add: target_path_def candidate_1)
qed

text \<open>
  Two papers with the same title (a preprint and the published version, say), each with its
  own open-access PDF; they are the two references of a seed paper, so a crawl of depth 1
  downloads them in sibling tasks.
\<close>

definition titled :: "string \<Rightarrow> string \<Rightarrow> string \<Rightarrow> paper_data" where
  "titled i t u = no_paper_keys\<lparr>paperId := Val i, title := Val t,
      openAccessPdf := Val \<lparr>oa_url = Val u, oa_status = Absent\<rparr>\<rparr>"

definition pdf_net :: "nat \<Rightarrow> request \<Rightarrow> real \<times> http_result" where
  "pdf_net n r =
     (0, Responds \<lparr>status = 200, content_disposition = None, url_path = ''/pdf'',
           json = NotJson, content = Some (''%PDF from '' @ req_url r)\<rparr>)"

definition two_downloads :: downloads where
  "two_downloads = downloads_start (init ''papers'' None) (world_of pdf_net)
     [titled ''A'' ''Deep Learning'' ''http://a.example/pdf'',
      titled ''B'' ''Deep Learning'' ''http://b.example/pdf'']"

text \<open>
  C7: the collision loop keeps two downloads of the same file name apart when the second
  chooses its path after the first has created its file: run one after the other, the two
  downloads above are saved as \<^verbatim>\<open>Deep_Learning.pdf\<close> and \<^verbatim>\<open>Deep_Learning_1.pdf\<close>. But the
  file is only created at \<^verbatim>\<open>aiofiles.open\<close>, an \<^verbatim>\<open>await\<close> after the loop. When the answers
  to both requests have arrived, each task runs its loop before either file exists: both
  choose \<^verbatim>\<open>papers/Deep_Learning.pdf\<close>, both calls return \<^verbatim>\<open>True\<close> with that file name, and
  the disk holds one file, with the content of the second download: the first was
  overwritten.
\<close>

theorem same_path_chosen_twice:
  "dl_tasks (download_run [0, 0, 0, 1, 1, 1] two_downloads) =
     [Finished True ((titled ''A'' ''Deep Learning'' ''http://a.example/pdf'')\<lparr>
        saved_filename := Val ''Deep_Learning.pdf''\<rparr>),
      Finished True ((titled ''B'' ''Deep Learning'' ''http://b.example/pdf'')\<lparr>
        saved_filename := Val ''Deep_Learning_1.pdf''\<rparr>)] \<and>
   files (dl_env (download_run [0, 0, 0, 1, 1, 1] two_downloads)) =
     [(''papers/Deep_Learning_1.pdf'', ''%PDF from http://b.example/pdf''),
      (''papers/Deep_Learning.pdf'', ''%PDF from http://a.example/pdf'')] \<and>
   dl_tasks (download_run [0, 1, 0, 1, 0, 1] two_downloads) =
     [Finished True ((titled ''A'' ''Deep Learning'' ''http://a.example/pdf'')\<lparr>
        saved_filename := Val ''Deep_Learning.pdf''\<rparr>),
      Finished True ((titled ''B'' ''Deep Learning'' ''http://b.example/pdf'')\<lparr>
        saved_filename := Val ''Deep_Learning.pdf''\<rparr>)] \<and>
   files (dl_env (download_run [0, 1, 0, 1, 0, 1] two_downloads)) =
     [(''papers/Deep_Learning.pdf'', ''%PDF from http://b.example/pdf'')]"
proof -
  have "dl_tasks (download_run [0, 0, 0, 1, 1, 1] two_downloads) =
     [Finished True ((titled ''A'' ''Deep Learning'' ''http://a.example/pdf'')\<lparr>
        saved_filename := Val ''Deep_Learning.pdf''\<rparr>),
      Finished True ((titled ''B'' ''Deep Learning'' ''http://b.example/pdf'')\<lparr>
        saved_filename := Val ''Deep_Learning_1.pdf''\<rparr>)]"
    by code_simp
  moreover have "files (dl_env (download_run [0, 0, 0, 1, 1, 1] two_downloads)) =
     [(''papers/Deep_Learning_1.pdf'', ''%PDF from http://b.example/pdf''),
      (''papers/Deep_Learning.pdf'', ''%PDF from http://a.example/pdf'')]"
    by code_simp
  moreover have "dl_tasks (download_run [0, 1, 0, 1, 0, 1] two_downloads) =
     [Finished True ((titled ''A'' ''Deep Learning'' ''http://a.example/pdf'')\<lparr>
        saved_filename := Val ''Deep_Learning.pdf''\<rparr>),
      Finished True ((titled ''B'' ''Deep Learning'' ''http://b.example/pdf'')\<lparr>
        saved_filename := Val ''Deep_Learning.pdf''\<rparr>)]"
    by code_simp
  moreover have "files (dl_env (download_run [0, 1, 0, 1, 0, 1] two_downloads)) =
     [(''papers/Deep_Learning.pdf'', ''%PDF from http://b.example/pdf'')]"
    by code_simp
  ultimately show ?thesis
    by blast
qed

section \<open>The crawl: what each step does\<close>

definition fetching_ids :: "task list \<Rightarrow> string list" where
  "fetching_ids ts = map paper_id (filter (\<lambda>t. phase t = Fetching) ts)"

lemma fetch_calls_append [simp]: "fetch_calls (xs @ ys) = fetch_calls xs @ fetch_calls ys"
  by (induction xs rule: fetch_calls.induct) simp_all

lemma download_calls_append [simp]:
  "download_calls (xs @ ys) = download_calls xs @ download_calls ys"
  by (induction xs rule: download_calls.induct) simp_all

lemma edges_append [simp]: "edges (xs @ ys) = edges xs @ edges ys"
  by (induction xs rule: edges.induct) simp_all

lemma length_set_phase [simp]: "length (set_phase i ph ts) = length ts"
  by (simp add: set_phase_def)

lemma nth_set_phase:
  "j < length ts \<Longrightarrow> set_phase i ph ts ! j = (if j = i then (ts ! i)\<lparr>phase := ph\<rparr> else ts ! j)"
  by (simp add: set_phase_def)

lemma fetching_ids_update:
  "i < length ts \<Longrightarrow>
     mset (fetching_ids (ts[i := t'])) +
       (if phase (ts ! i) = Fetching then {#paper_id (ts ! i)#} else {#}) =
     mset (fetching_ids ts) + (if phase t' = Fetching then {#paper_id t'#} else {#})"
proof (induction ts arbitrary: i)
  case Nil
  then show ?case by simp
next
  case (Cons t ts)
  show ?case
  proof (cases i)
    case 0
    then show ?thesis by (simp add: fetching_ids_def)
  next
    case (Suc j)
    then have "j < length ts" using Cons.prems by simp
    from Cons.IH[OF this] show ?thesis
      using Suc by (auto simp: fetching_ids_def split: if_splits)
  qed
qed

lemma fetching_ids_set_phase:
  "i < length ts \<Longrightarrow>
     mset (fetching_ids (set_phase i ph ts)) +
       (if phase (ts ! i) = Fetching then {#paper_id (ts ! i)#} else {#}) =
     mset (fetching_ids ts) + (if ph = Fetching then {#paper_id (ts ! i)#} else {#})"
  using fetching_ids_update[of i ts "(ts ! i)\<lparr>phase := ph\<rparr>"] by (simp add: set_phase_def)

lemma fetching_ids_append [simp]:
  "fetching_ids (ts @ us) = fetching_ids ts @ fetching_ids us"
  by (simp add: fetching_ids_def)

lemma fetching_ids_new [simp]:
  "fetching_ids (map (\<lambda>k. \<lparr>paper_id = k, depth = d, phase = Start\<rparr>) kids) = []"
  by (induction kids) (simp_all add: fetching_ids_def)

text \<open>The fetch and the download leave the visited set alone.\<close>

lemma visited_wait [simp]:
  "visited_papers (fst (wait_for_rate_limit self w)) = visited_papers self"
  by (simp add: wait_for_rate_limit_def Let_def)

lemma visited_fetch_attempts:
  "visited_papers (fst (snd (fetch_attempts self w p retries ks))) = visited_papers self"
proof (induction ks arbitrary: self w)
  case Nil
  then show ?case by simp
next
  case (Cons k ks)
  obtain self1 w1 where a: "wait_for_rate_limit self w = (self1, w1)"
    by (cases "wait_for_rate_limit self w")
  then have v: "visited_papers self1 = visited_papers self"
    using visited_wait[of self w] by simp
  obtain res w2 where b: "http_get w1 (details_request self1 p) = (res, w2)"
    by (cases "http_get w1 (details_request self1 p)")
  show ?case
    using a b v Cons.IH
    by (auto simp: Let_def split: http_result.splits sum.splits)
qed

lemma visited_fetch [simp]:
  "visited_papers (fst (snd (fetch_paper_details self w p retries))) = visited_papers self"
  by (simp add: fetch_paper_details_def visited_fetch_attempts)

definition dedup_inv :: "crawl \<Rightarrow> bool" where
  "dedup_inv s =
     (distinct (fetch_calls (calls s)) \<and>
      set (fetch_calls (calls s)) \<subseteq> visited_papers (fetcher s) \<and>
      mset (fetching_ids (pool s)) + mset (download_calls (calls s)) \<subseteq>#
        mset (fetch_calls (calls s)))"

lemma fetching_ids_quiet:
  assumes "i < length ts" "phase (ts ! i) \<noteq> Fetching" "ph \<noteq> Fetching"
  shows "mset (fetching_ids (set_phase i ph ts)) = mset (fetching_ids ts)"
  using fetching_ids_set_phase[OF assms(1), of ph] assms(2,3) by simp

lemma dedup_inv_start:
  assumes "dedup_inv s" "i < length (pool s)" "phase (pool s ! i) = Start"
  shows "dedup_inv (step_start i s)"
proof (cases "paper_id (pool s ! i) \<in> visited_papers (fetcher s) \<or> depth (pool s ! i) < 0")
  case True
  then show ?thesis
    using assms by (simp add: step_start_def dedup_inv_def fetching_ids_quiet)
next
  case False
  have "mset (fetching_ids (set_phase i Fetching (pool s))) =
        mset (fetching_ids (pool s)) + {#paper_id (pool s ! i)#}"
    using fetching_ids_set_phase[OF assms(2), of Fetching] assms(3) by simp
  moreover have "paper_id (pool s ! i) \<notin> set (fetch_calls (calls s))"
    using False assms(1) by (auto simp: dedup_inv_def)
  ultimately show ?thesis
    using False assms(1) by (auto simp: step_start_def dedup_inv_def Let_def)
qed

lemma dedup_inv_fetched:
  assumes "dedup_inv s" "i < length (pool s)" "phase (pool s ! i) = Fetching"
  shows "dedup_inv (step_fetched i s)"
proof -
  obtain r self1 w1 where f:
    "fetch_paper_details (fetcher s) (env s) (paper_id (pool s ! i)) 3 = (r, self1, w1)"
    by (cases "fetch_paper_details (fetcher s) (env s) (paper_id (pool s ! i)) 3")
  then have v: "visited_papers self1 = visited_papers (fetcher s)"
    using visited_fetch[of "fetcher s" "env s" "paper_id (pool s ! i)" 3] by simp
  have m: "mset (fetching_ids (set_phase i ph (pool s))) + {#paper_id (pool s ! i)#} =
        mset (fetching_ids (pool s))" if "ph \<noteq> Fetching" for ph
    using fetching_ids_set_phase[OF assms(2), of ph] assms(3) that by simp
  show ?thesis
  proof (cases r)
    case None
    have e: "mset (fetching_ids (set_phase i (Returned []) (pool s))) + {#paper_id (pool s ! i)#} =
        mset (fetching_ids (pool s))"
      using m[of "Returned []"] by simp
    have "mset (fetching_ids (set_phase i (Returned []) (pool s))) \<subseteq>#
        mset (fetching_ids (set_phase i (Returned []) (pool s))) + {#paper_id (pool s ! i)#}"
      by simp
    then have "mset (fetching_ids (set_phase i (Returned []) (pool s))) \<subseteq>#
        mset (fetching_ids (pool s))"
      unfolding e .
    then show ?thesis
      using assms(1) f v None
      by (auto simp: step_fetched_def dedup_inv_def Let_def
          intro: subset_mset.order_trans[OF subset_mset.add_right_mono])
  next
    case (Some pd)
    show ?thesis
    proof (cases "pd = empty_dict")
      case True
      have e: "mset (fetching_ids (set_phase i (Returned []) (pool s))) + {#paper_id (pool s ! i)#} =
          mset (fetching_ids (pool s))"
        using m[of "Returned []"] by simp
      have "mset (fetching_ids (set_phase i (Returned []) (pool s))) \<subseteq>#
          mset (fetching_ids (set_phase i (Returned []) (pool s))) + {#paper_id (pool s ! i)#}"
        by simp
      then have "mset (fetching_ids (set_phase i (Returned []) (pool s))) \<subseteq>#
          mset (fetching_ids (pool s))"
        unfolding e .
      then show ?thesis
        using assms(1) f v Some True
        by (auto simp: step_fetched_def dedup_inv_def Let_def
            intro: subset_mset.order_trans[OF subset_mset.add_right_mono])
    next
      case False
      have "mset (fetching_ids (pool s)) =
            add_mset (paper_id (pool s ! i))
              (mset (fetching_ids (set_phase i (Downloading pd) (pool s))))"
        using m[of "Downloading pd"] by simp
      then show ?thesis
        using assms(1) f v Some False
        by (simp add: step_fetched_def dedup_inv_def Let_def)
    qed
  qed
qed

lemma dedup_inv_downloaded:
  assumes "dedup_inv s" "i < length (pool s)" "phase (pool s ! i) = Downloading pd"
  shows "dedup_inv (step_downloaded i pd s)"
  using assms
  by (auto simp: step_downloaded_def dedup_inv_def Let_def fetching_ids_quiet
      split: prod.splits sum.splits)

lemma dedup_inv_gather:
  assumes "dedup_inv s" "i < length (pool s)" "phase (pool s ! i) = Gathering rs kids"
  shows "dedup_inv (step_gather i rs kids s)"
  using assms
  by (auto simp: step_gather_def dedup_inv_def Let_def fetching_ids_quiet
      split: option.splits)

lemma dedup_inv_step: "dedup_inv s \<Longrightarrow> dedup_inv (step i s)"
  by (auto simp: step_def dedup_inv_start dedup_inv_fetched dedup_inv_downloaded
      dedup_inv_gather split: phase.splits)

lemma dedup_inv_run: "dedup_inv s \<Longrightarrow> dedup_inv (run sched s)"
  unfolding run_def by (induction sched arbitrary: s) (simp_all add: dedup_inv_step)

lemma dedup_inv_initial: "dedup_inv (process_paper self w seed d)"
  by (simp add: dedup_inv_def process_paper_def fetching_ids_def)



lemma nodes_within_Suc: "set (nodes_within E r n) \<subseteq> set (nodes_within E r (Suc n))"
  by simp




text \<open>A download changes nothing of the metadata but \<open>saved_filename\<close>.\<close>

lemma save_response_more:
  "\<exists>v. fst (snd (save_response self w r pd)) = pd\<lparr>saved_filename := v\<rparr>"
proof -
  have "\<exists>v. pd = pd\<lparr>saved_filename := v\<rparr>"
    by (rule exI[where x = "saved_filename pd"]) simp
  then show ?thesis
    by (auto simp: save_response_def open_file_def write_body_def Let_def split: option.splits sum.splits)
qed

lemma download_pdf_more:
  "\<exists>v. fst (snd (download_pdf self w pd)) = pd\<lparr>saved_filename := v\<rparr>"
proof -
  have same: "pd = pd\<lparr>saved_filename := saved_filename pd\<rparr>" by simp
  obtain u w1 where r: "resolve_pdf_url w pd = (u, w1)" by (cases "resolve_pdf_url w pd")
  show ?thesis
  proof (cases "\<exists>x. u = Some x \<and> x \<noteq> []")
    case False
    then have "fst (snd (download_pdf self w pd)) = pd"
      using r by (auto simp: download_pdf_unfold split: option.splits)
    then show ?thesis using same by metis
  next
    case True
    then obtain x where x: "u = Some x" "x \<noteq> []" by blast
    obtain res w2 where g: "http_get w1 (get_request x) = (res, w2)"
      by (cases "http_get w1 (get_request x)")
    show ?thesis
    proof (cases "\<exists>a. res = Responds a \<and> status a = 200")
      case False
      then have "fst (snd (download_pdf self w pd)) = pd"
        using r x g by (auto simp: download_pdf_unfold split: http_result.splits)
      then show ?thesis using same by metis
    next
      case True
      then obtain a where a: "res = Responds a" "status a = 200" by blast
      have "fst (snd (download_pdf self w pd)) = fst (snd (save_response self w2 a pd))"
        using r x g a by (simp add: download_pdf_unfold split: prod.splits sum.splits)
      then show ?thesis
        using save_response_more[of self w2 a pd] by simp
    qed
  qed
qed

lemma child_ids_download [simp]:
  "child_ids (fst (snd (download_pdf self w pd))) = child_ids pd"
proof -
  obtain v where "fst (snd (download_pdf self w pd)) = pd\<lparr>saved_filename := v\<rparr>"
    using download_pdf_more by blast
  then show ?thesis
    by (simp add: child_ids_def connected_papers_def)
qed
































lemma downloads_fetched:
  "set (download_calls (calls (run sched (process_paper self w seed d)))) \<subseteq>
   set (fetch_calls (calls (run sched (process_paper self w seed d))))"
proof -
  have "dedup_inv (run sched (process_paper self w seed d))"
    by (intro dedup_inv_run dedup_inv_initial)
  then have "mset (download_calls (calls (run sched (process_paper self w seed d)))) \<subseteq>#
      mset (fetch_calls (calls (run sched (process_paper self w seed d))))"
    unfolding dedup_inv_def
    by (meson subset_mset.order_trans mset_subset_eq_add_right)
  then show ?thesis
    using set_mset_mono by fastforce
qed

lemma distinct_of_counts: "(\<forall>a. count (mset xs) a \<le> 1) \<Longrightarrow> distinct xs"
proof (induction xs)
  case Nil
  then show ?case by simp
next
  case (Cons x xs)
  have "count (mset (x # xs)) x \<le> 1"
    using Cons.prems by blast
  then have "count (mset xs) x = 0"
    by simp
  then have "x \<notin> set xs"
    by (simp add: count_eq_zero_iff)
  moreover have "\<forall>a. count (mset xs) a \<le> 1"
  proof
    fix a
    have "count (mset xs) a \<le> count (mset (x # xs)) a" by simp
    also have "\<dots> \<le> 1" using Cons.prems by blast
    finally show "count (mset xs) a \<le> 1" .
  qed
  ultimately show ?case
    using Cons.IH by simp
qed

lemma distinct_sub:
  assumes "mset xs \<subseteq># mset ys" "distinct ys"
  shows "distinct xs"
proof (rule distinct_of_counts, rule allI)
  fix a
  have "count (mset xs) a \<le> count (mset ys) a"
    using assms(1) by (rule mset_subset_eq_count)
  also have "\<dots> \<le> 1"
    using assms(2) by (simp add: distinct_count_atmost_1)
  finally show "count (mset xs) a \<le> 1" .
qed

lemma distinct_downloads:
  "distinct (download_calls (calls (run sched (process_paper self w seed d))))"
proof -
  let ?s = "run sched (process_paper self w seed d)"
  have inv: "dedup_inv ?s"
    by (intro dedup_inv_run dedup_inv_initial)
  then have "mset (download_calls (calls ?s)) \<subseteq># mset (fetch_calls (calls ?s))"
    unfolding dedup_inv_def
    by (meson subset_mset.order_trans mset_subset_eq_add_right)
  moreover have "distinct (fetch_calls (calls ?s))"
    using inv by (simp add: dedup_inv_def)
  ultimately show ?thesis
    by (rule distinct_sub)
qed

text \<open>
  C1: in every run of a crawl (any interleaving of the tasks, any answers of the network,
  any citation graph, a fetcher that may have visited papers before), no paper id has
  \<open>fetch_paper_details\<close> called for it twice, none has \<open>download_pdf\<close> called for it
  twice, a download is only called for a fetched id, and every id fetched is in the visited
  set. A call that passes the guard marks its id in the same step, before anything is
  requested (the world is untouched), and a call on an id already marked returns the empty
  list and changes nothing else. The retries inside one call of \<open>fetch_paper_details\<close>
  are attempts of that one fetch.
\<close>

theorem each_paper_once:
  "distinct (fetch_calls (calls (run sched (process_paper self w seed d)))) \<and>
   distinct (download_calls (calls (run sched (process_paper self w seed d)))) \<and>
   set (download_calls (calls (run sched (process_paper self w seed d)))) \<subseteq>
     set (fetch_calls (calls (run sched (process_paper self w seed d)))) \<and>
   set (fetch_calls (calls (run sched (process_paper self w seed d)))) \<subseteq>
     visited_papers (fetcher (run sched (process_paper self w seed d))) \<and>
   (i < length (pool s) \<and> phase (pool s ! i) = Start \<and> 0 \<le> depth (pool s ! i) \<and>
    paper_id (pool s ! i) \<notin> visited_papers (fetcher s) \<longrightarrow>
      paper_id (pool s ! i) \<in> visited_papers (fetcher (step i s)) \<and>
      phase (pool (step i s) ! i) = Fetching \<and> env (step i s) = env s) \<and>
   (i < length (pool s) \<and> phase (pool s ! i) = Start \<and>
    paper_id (pool s ! i) \<in> visited_papers (fetcher s) \<longrightarrow>
      step i s = s\<lparr>pool := set_phase i (Returned []) (pool s)\<rparr>)"
proof -
  have "dedup_inv (run sched (process_paper self w seed d))"
    by (intro dedup_inv_run dedup_inv_initial)
  then show ?thesis
    using distinct_downloads[of sched self w seed d] downloads_fetched[of sched self w seed d]
    by (auto simp: dedup_inv_def step_def step_start_def nth_set_phase Let_def)
qed

text \<open>
  C9: a call of \<open>process_paper\<close> whose id is already visited or whose depth is negative
  returns the empty list and leaves the fetcher (with its visited set), the world and the
  log of calls as they were. After such a call with a negative depth on an id not yet
  visited, another call on the same id with a depth that is not negative passes the guard:
  it marks the id and calls the fetch.
\<close>

theorem guard_leaves_state:
  assumes "i < length (pool s)" and "phase (pool s ! i) = Start"
    and "paper_id (pool s ! i) \<in> visited_papers (fetcher s) \<or> depth (pool s ! i) < 0"
  shows "step i s = s\<lparr>pool := set_phase i (Returned []) (pool s)\<rparr> \<and>
         phase (pool (step i s) ! i) = Returned [] \<and>
         fetcher (step i s) = fetcher s \<and> env (step i s) = env s \<and> calls (step i s) = calls s \<and>
         (j < length (pool s) \<and> j \<noteq> i \<and> phase (pool s ! j) = Start \<and>
          paper_id (pool s ! j) = paper_id (pool s ! i) \<and> 0 \<le> depth (pool s ! j) \<and>
          paper_id (pool s ! i) \<notin> visited_papers (fetcher s) \<longrightarrow>
            phase (pool (step j (step i s)) ! j) = Fetching \<and>
            calls (step j (step i s)) = calls s @ [FetchCall (paper_id (pool s ! i))] \<and>
            paper_id (pool s ! i) \<in> visited_papers (fetcher (step j (step i s))))"
  using assms
  by (auto simp: step_def step_start_def nth_set_phase)

definition children :: "paper_data \<Rightarrow> task \<Rightarrow> task list" where
  "children pd t =
     map (\<lambda>k. \<lparr>paper_id = k, depth = depth t - 1, phase = Start\<rparr>) (child_ids pd)"

definition waiting :: "paper_record list \<Rightarrow> paper_data \<Rightarrow> nat \<Rightarrow> phase" where
  "waiting rs pd n =
     (if child_ids pd = [] then Returned rs
      else Gathering rs [n ..< n + length (child_ids pd)])"

text \<open>
  C8: when the download of a fetched node fails, the node has no record of its own (its
  results so far are empty) and a task is created for each child the metadata names, with
  the depth lowered by one; these are the same tasks, in the same order, as after a download
  that succeeded, where the only difference is the node's record. The results the node
  returns after the gathering are those of its children.
\<close>

theorem failed_download_keeps_children:
  assumes "i < length (pool s)" and "phase (pool s ! i) = Downloading pd"
  shows "(\<not> fst (download_pdf (fetcher s) (env s) pd) \<longrightarrow>
            pool (step i s) =
              set_phase i (waiting [] pd (length (pool s))) (pool s) @ children pd (pool s ! i)) \<and>
         (fst (download_pdf (fetcher s) (env s) pd) \<and>
          make_record (fetcher s) (paper_id (pool s ! i))
            (fst (snd (download_pdf (fetcher s) (env s) pd))) = Inr r \<longrightarrow>
            pool (step i s) =
              set_phase i (waiting [r] pd (length (pool s))) (pool s) @ children pd (pool s ! i)) \<and>
         (phase (pool s' ! i') = Gathering [] kids \<and> i' < length (pool s') \<and>
          raised (map (\<lambda>k. phase (pool s' ! k)) kids) = None \<and>
          returned (map (\<lambda>k. phase (pool s' ! k)) kids) = Some rss \<longrightarrow>
            phase (pool (step i' s') ! i') = Returned (concat rss))"
proof -
  obtain ok pd1 w1 where dl: "download_pdf (fetcher s) (env s) pd = (ok, pd1, w1)"
    by (cases "download_pdf (fetcher s) (env s) pd")
  then have kids: "child_ids pd1 = child_ids pd"
    using child_ids_download[of "fetcher s" "env s" pd] by simp
  show ?thesis
    using assms dl kids
    by (auto simp: step_def step_downloaded_def step_gather_def Let_def children_def
        waiting_def nth_set_phase)
qed


section \<open>Runs of the crawl on given graphs\<close>

text \<open>A metadata server for a given citation graph; every other URL answers 200.\<close>

definition paper :: "string \<Rightarrow> string list \<Rightarrow> string list \<Rightarrow> paper_data" where
  "paper i refs cits = no_paper_keys\<lparr>paperId := Val i,
      references := Val (map (\<lambda>c. \<lparr>ref_paperId = Val c\<rparr>) refs),
      citations := Val (map (\<lambda>c. \<lparr>ref_paperId = Val c\<rparr>) cits)\<rparr>"

definition metadata_response :: "paper_data \<Rightarrow> response" where
  "metadata_response pd = \<lparr>status = 200, content_disposition = None, url_path = [],
      json = PaperDoc pd, content = Some []\<rparr>"

definition library :: "paper_data list \<Rightarrow> nat \<Rightarrow> request \<Rightarrow> real \<times> http_result" where
  "library ps n r =
     (0, case find (\<lambda>pd. Some (req_url r) =
                      map_option (\<lambda>i. base_url (init ''papers'' None) @ i) (get (paperId pd))) ps of
           Some pd \<Rightarrow> Responds (metadata_response pd)
         | None \<Rightarrow> Responds (plain 200))"

text \<open>Scenario B of the specification.\<close>

definition scenario_b :: world where
  "scenario_b = world_of (library
     [paper ''R'' [''A''] [''A'', ''B''], paper ''A'' [] [], paper ''B'' [] []])"

definition crawl_b :: "nat list \<Rightarrow> crawl" where
  "crawl_b sched = run sched (process_paper (init ''papers'' None) scenario_b ''R'' 1)"


definition full_b :: "nat list" where
  "full_b = [0, 0, 0, 1, 2, 3, 1, 1, 3, 3, 0]"

theorem each_paper_once_witness:
  "fetch_calls (calls (crawl_b full_b)) = [''R'', ''A'', ''B''] \<and>
   download_calls (calls (crawl_b full_b)) = [''R'', ''A'', ''B''] \<and>
   distinct (fetch_calls (calls (crawl_b full_b))) \<and>
   distinct (download_calls (calls (crawl_b full_b))) \<and>
   paper_id (pool (crawl_b [0, 0, 0, 1]) ! 2) = ''A'' \<and>
   ''A'' \<in> visited_papers (fetcher (crawl_b [0, 0, 0, 1])) \<and>
   step 2 (crawl_b [0, 0, 0, 1]) =
     (crawl_b [0, 0, 0, 1])\<lparr>pool := set_phase 2 (Returned []) (pool (crawl_b [0, 0, 0, 1]))\<rparr> \<and>
   paper_id (pool (crawl_b [0, 0, 0, 1]) ! 3) = ''B'' \<and>
   ''B'' \<notin> visited_papers (fetcher (crawl_b [0, 0, 0, 1])) \<and>
   ''B'' \<in> visited_papers (fetcher (step 3 (crawl_b [0, 0, 0, 1]))) \<and>
   phase (pool (step 3 (crawl_b [0, 0, 0, 1])) ! 3) = Fetching"
proof -
  let ?s = "crawl_b [0, 0, 0, 1]"
  have logs: "fetch_calls (calls (crawl_b full_b)) = [''R'', ''A'', ''B'']"
    "download_calls (calls (crawl_b full_b)) = [''R'', ''A'', ''B'']"
    by code_simp+
  have again: "2 < length (pool ?s)" "phase (pool ?s ! 2) = Start"
    "paper_id (pool ?s ! 2) = ''A''" "''A'' \<in> visited_papers (fetcher ?s)"
    by code_simp+
  have new: "3 < length (pool ?s)" "phase (pool ?s ! 3) = Start" "0 \<le> depth (pool ?s ! 3)"
    "paper_id (pool ?s ! 3) = ''B''" "''B'' \<notin> visited_papers (fetcher ?s)"
    by code_simp+
  note t = each_paper_once[where sched = full_b and self = "init ''papers'' None"
      and w = scenario_b and seed = "''R''" and d = 1 and s = ?s, folded crawl_b_def]
  show ?thesis
    using t[where i = 2] t[where i = 3] logs again new by simp
qed

text \<open>
  A graph in which \<open>X\<close> is three edges from \<open>R\<close> through \<open>A\<close> and \<open>D\<close>, and two edges
  through \<open>B\<close>.
\<close>

definition two_paths :: world where
  "two_paths = world_of (library
     [paper ''R'' [''A'', ''B''] [], paper ''A'' [''D''] [], paper ''B'' [''X''] [],
      paper ''D'' [''X''] [], paper ''X'' [''Y''] [], paper ''Y'' [] []])"

text \<open>With depth 2 the path through \<open>A\<close> reaches \<open>X\<close> with depth \<open>-1\<close>; \<open>B\<close> answers late.\<close>

definition both_calls :: crawl where
  "both_calls = run [0, 0, 0, 1, 2, 1, 1, 3, 3, 3, 2, 2]
     (process_paper (init ''papers'' None) two_paths ''R'' 2)"


theorem guard_leaves_state_witness:
  "paper_id (pool both_calls ! 4) = ''X'' \<and> depth (pool both_calls ! 4) = - 1 \<and>
   ''X'' \<notin> visited_papers (fetcher both_calls) \<and>
   phase (pool (step 4 both_calls) ! 4) = Returned [] \<and>
   fetcher (step 4 both_calls) = fetcher both_calls \<and>
   env (step 4 both_calls) = env both_calls \<and>
   calls (step 4 both_calls) = calls both_calls \<and>
   paper_id (pool both_calls ! 5) = ''X'' \<and> depth (pool both_calls ! 5) = 0 \<and>
   phase (pool (step 5 (step 4 both_calls)) ! 5) = Fetching \<and>
   calls (step 5 (step 4 both_calls)) = calls both_calls @ [FetchCall ''X''] \<and>
   ''X'' \<in> visited_papers (fetcher (step 5 (step 4 both_calls)))"
proof -
  have shallow: "4 < length (pool both_calls)" "phase (pool both_calls ! 4) = Start"
    "paper_id (pool both_calls ! 4) = ''X''" "depth (pool both_calls ! 4) = - 1"
    "''X'' \<notin> visited_papers (fetcher both_calls)"
    by code_simp+
  have deep: "5 < length (pool both_calls)" "phase (pool both_calls ! 5) = Start"
    "paper_id (pool both_calls ! 5) = ''X''" "depth (pool both_calls ! 5) = 0"
    by code_simp+
  have more: "(5::nat) \<noteq> 4" "0 \<le> depth (pool both_calls ! 5)"
    "paper_id (pool both_calls ! 5) = paper_id (pool both_calls ! 4)"
    "paper_id (pool both_calls ! 4) \<notin> visited_papers (fetcher both_calls)"
    "paper_id (pool both_calls ! 4) \<in> visited_papers (fetcher both_calls) \<or>
     depth (pool both_calls ! 4) < 0"
    using shallow deep by simp_all
  note t = guard_leaves_state[OF shallow(1,2) more(5), where j = 5]
  have 1: "phase (pool (step 4 both_calls) ! 4) = Returned [] \<and>
      fetcher (step 4 both_calls) = fetcher both_calls \<and>
      env (step 4 both_calls) = env both_calls \<and>
      calls (step 4 both_calls) = calls both_calls"
    using t by blast
  have 2: "phase (pool (step 5 (step 4 both_calls)) ! 5) = Fetching \<and>
      calls (step 5 (step 4 both_calls)) =
        calls both_calls @ [FetchCall (paper_id (pool both_calls ! 4))] \<and>
      paper_id (pool both_calls ! 4) \<in> visited_papers (fetcher (step 5 (step 4 both_calls)))"
    using t deep(1,2) more(1-4) by blast
  show ?thesis
    using 1 2 shallow(3,4,5) deep(3,4) by simp
qed

text \<open>A paper with an open-access PDF and one reference.\<close>

definition paper_s :: paper_data where
  "paper_s = (paper ''S'' [''A''] [])\<lparr>
      openAccessPdf := Val \<lparr>oa_url = Val ''http://x/s.pdf'', oa_status = Absent\<rparr>\<rparr>"

definition crawl_s :: "nat list \<Rightarrow> crawl" where
  "crawl_s sched = run sched
     (process_paper (init ''papers'' None) (world_of (library [paper_s, paper ''A'' [] []])) ''S'' 1)"

definition record_s :: paper_record where
  "record_s = \<lparr>rec_id = ''S'', rec_title = Some ''Unknown'', rec_authors = [],
     rec_year = None, rec_url = None, rec_filename = Some ''S.pdf'',
     rec_pdf_path = ''papers/S.pdf''\<rparr>"

theorem failed_download_keeps_children_witness:
  "phase (pool (crawl_b [0, 0]) ! 0) = Downloading (paper ''R'' [''A''] [''A'', ''B'']) \<and>
   \<not> fst (download_pdf (fetcher (crawl_b [0, 0])) (env (crawl_b [0, 0]))
            (paper ''R'' [''A''] [''A'', ''B''])) \<and>
   pool (step 0 (crawl_b [0, 0])) =
     [\<lparr>paper_id = ''R'', depth = 1, phase = Gathering [] [1, 2, 3]\<rparr>,
      \<lparr>paper_id = ''A'', depth = 0, phase = Start\<rparr>,
      \<lparr>paper_id = ''A'', depth = 0, phase = Start\<rparr>,
      \<lparr>paper_id = ''B'', depth = 0, phase = Start\<rparr>] \<and>
   fst (download_pdf (fetcher (crawl_s [0, 0])) (env (crawl_s [0, 0])) paper_s) \<and>
   pool (step 0 (crawl_s [0, 0])) =
     [\<lparr>paper_id = ''S'', depth = 1, phase = Gathering [record_s] [1]\<rparr>,
      \<lparr>paper_id = ''A'', depth = 0, phase = Start\<rparr>] \<and>
   phase (pool (crawl_b [0, 0, 0, 1, 2, 3, 1, 1, 3, 3]) ! 0) = Gathering [] [1, 2, 3] \<and>
   phase (pool (step 0 (crawl_b [0, 0, 0, 1, 2, 3, 1, 1, 3, 3])) ! 0) = Returned []"
proof -
  let ?b = "crawl_b [0, 0]" and ?s = "crawl_s [0, 0]"
  let ?g = "crawl_b [0, 0, 0, 1, 2, 3, 1, 1, 3, 3]"
  let ?R = "paper ''R'' [''A''] [''A'', ''B'']"
  have b: "0 < length (pool ?b)" "phase (pool ?b ! 0) = Downloading ?R"
    "\<not> fst (download_pdf (fetcher ?b) (env ?b) ?R)"
    by code_simp+
  have b': "set_phase 0 (waiting [] ?R (length (pool ?b))) (pool ?b) @ children ?R (pool ?b ! 0) =
     [\<lparr>paper_id = ''R'', depth = 1, phase = Gathering [] [1, 2, 3]\<rparr>,
      \<lparr>paper_id = ''A'', depth = 0, phase = Start\<rparr>,
      \<lparr>paper_id = ''A'', depth = 0, phase = Start\<rparr>,
      \<lparr>paper_id = ''B'', depth = 0, phase = Start\<rparr>]"
    by code_simp
  have s: "0 < length (pool ?s)" "phase (pool ?s ! 0) = Downloading paper_s"
    "fst (download_pdf (fetcher ?s) (env ?s) paper_s)"
    "make_record (fetcher ?s) (paper_id (pool ?s ! 0))
       (fst (snd (download_pdf (fetcher ?s) (env ?s) paper_s))) = Inr record_s"
    by code_simp+
  have s': "set_phase 0 (waiting [record_s] paper_s (length (pool ?s))) (pool ?s) @
       children paper_s (pool ?s ! 0) =
     [\<lparr>paper_id = ''S'', depth = 1, phase = Gathering [record_s] [1]\<rparr>,
      \<lparr>paper_id = ''A'', depth = 0, phase = Start\<rparr>]"
    by code_simp
  have g: "0 < length (pool ?g)" "phase (pool ?g ! 0) = Gathering [] [1, 2, 3]"
    "raised (map (\<lambda>k. phase (pool ?g ! k)) [1, 2, 3]) = None"
    "returned (map (\<lambda>k. phase (pool ?g ! k)) [1, 2, 3]) = Some [[], [], []]"
    by code_simp+
  show ?thesis
    using failed_download_keeps_children[OF b(1,2), where r = record_s and s' = ?g and i' = 0
        and kids = "[1, 2, 3]" and rss = "[[], [], []]"]
      failed_download_keeps_children[OF s(1,2), where r = record_s and s' = ?g and i' = 0
        and kids = "[1, 2, 3]" and rss = "[[], [], []]"]
      b b' s s' g
    by simp
qed





section \<open>The rate limiter between tasks\<close>

text \<open>
  Several tasks run \<^verbatim>\<open>fetch_paper_details\<close> at once, and share the semaphore and
  \<^verbatim>\<open>last_request_time\<close>. A caller is outside the semaphore, or holds it and sleeps in
  \<^verbatim>\<open>wait_for_rate_limit\<close> until a wake-up time, or holds it with its request in flight, or
  has left. An event is a caller taking its next step at a time read from the clock:
  \<^item> outside: \<^verbatim>\<open>async with self.rate_limit\<close> takes a permit if there is one (the caller
    stays outside otherwise), and lines 32-34 follow at once: the caller goes to sleep if
    the last request is too recent, else line 35 sets \<^verbatim>\<open>last_request_time\<close> and the
    request starts;
  \<^item> sleeping: at or after the wake-up time, line 35 and the start of the request;
  \<^item> in flight: the answer arrives and the permit is given back.
  \<open>starts\<close> lists the times at which requests started.
\<close>

datatype caller = Outside | Sleeping real | In_flight | Left

record limiter =
  shared :: PaperFetcher
  callers :: "caller list"
  starts :: "real list"

definition admit :: "nat \<Rightarrow> real \<Rightarrow> limiter \<Rightarrow> limiter" where
  "admit i now s =
     s\<lparr>shared := (shared s)\<lparr>last_request_time := now\<rparr>,
       callers := (callers s)[i := In_flight],
       starts := starts s @ [now]\<rparr>"

definition limiter_step :: "nat \<times> real \<Rightarrow> limiter \<Rightarrow> limiter" where
  "limiter_step e s =
     (let i = fst e; now = snd e; self = shared s
      in if i < length (callers s) then
           (case callers s ! i of
              Outside \<Rightarrow>
                if rate_limit self = 0 then s
                else (let s1 = s\<lparr>shared := self\<lparr>rate_limit := rate_limit self - 1\<rparr>\<rparr>
                      in if now - last_request_time self < request_interval self
                         then s1\<lparr>callers := (callers s)[i := Sleeping
                                  (now + (request_interval self - (now - last_request_time self)))]\<rparr>
                         else admit i now s1)
            | Sleeping wake \<Rightarrow> if now < wake then s else admit i now s
            | In_flight \<Rightarrow>
                s\<lparr>shared := self\<lparr>rate_limit := rate_limit self + 1\<rparr>,
                  callers := (callers s)[i := Left]\<rparr>
            | Left \<Rightarrow> s)
         else s)"

definition limiter_run :: "(nat \<times> real) list \<Rightarrow> limiter \<Rightarrow> limiter" where
  "limiter_run es s = fold limiter_step es s"

definition limiter_start :: "PaperFetcher \<Rightarrow> nat \<Rightarrow> limiter" where
  "limiter_start self n = \<lparr>shared = self, callers = replicate n Outside, starts = []\<rparr>"

text \<open>The semaphore does its part: the callers that hold it and the permits left add up.\<close>

fun holds :: "caller \<Rightarrow> bool" where
  "holds (Sleeping t) = True"
| "holds In_flight = True"
| "holds c = False"

definition holders :: "caller list \<Rightarrow> nat" where
  "holders cs = length (filter holds cs)"

lemma holders_update:
  "i < length cs \<Longrightarrow>
     holders (cs[i := c]) + (if holds (cs ! i) then 1 else 0) =
     holders cs + (if holds c then 1 else 0)"
proof (induction cs arbitrary: i)
  case Nil
  then show ?case by simp
next
  case (Cons x cs)
  show ?case
  proof (cases i)
    case 0
    then show ?thesis by (simp add: holders_def)
  next
    case (Suc j)
    then have "j < length cs" using Cons.prems by simp
    from Cons.IH[OF this] show ?thesis
      using Suc by (auto simp: holders_def split: if_splits)
  qed
qed

lemma permits_step:
  "rate_limit (shared (limiter_step e s)) + holders (callers (limiter_step e s)) =
   rate_limit (shared s) + holders (callers s)"
proof (cases "fst e < length (callers s)")
  case False
  then show ?thesis by (simp add: limiter_step_def Let_def)
next
  case True
  note u = holders_update[OF True]
  show ?thesis
  proof (cases "callers s ! fst e")
    case Outside
    then show ?thesis
      using u[of "Sleeping (snd e + (request_interval (shared s) -
                    (snd e - last_request_time (shared s))))"] u[of In_flight] True
      by (auto simp: limiter_step_def Let_def admit_def)
  next
    case (Sleeping wake)
    then show ?thesis
      using u[of In_flight] True by (auto simp: limiter_step_def Let_def admit_def)
  next
    case In_flight
    then show ?thesis
      using u[of Left] True by (auto simp: limiter_step_def Let_def)
  next
    case Left
    then show ?thesis
      using True by (simp add: limiter_step_def Let_def)
  qed
qed

lemma permits_run:
  "rate_limit (shared (limiter_run es s)) + holders (callers (limiter_run es s)) =
   rate_limit (shared s) + holders (callers s)"
  unfolding limiter_run_def by (induction es arbitrary: s) (simp_all add: permits_step)

lemma at_most_three_hold:
  "holders (callers (limiter_run es (limiter_start (init out key) n))) \<le> 3"
proof -
  have "holders (replicate n Outside) = 0"
    by (simp add: holders_def)
  then show ?thesis
    using permits_run[of es "limiter_start (init out key) n"]
    by (simp add: limiter_start_def init_def)
qed

definition ten_requests :: "(nat \<times> real) list" where
  "ten_requests =
     [(0, 1000), (0, 1001),
      (1, 1001), (2, 1001), (3, 1001), (1, 1002), (2, 1002), (3, 1002),
      (1, 1003), (2, 1003), (3, 1003),
      (4, 1003), (5, 1003), (6, 1003), (4, 1004), (5, 1004), (6, 1004),
      (4, 1005), (5, 1005), (6, 1005),
      (7, 1005), (8, 1005), (9, 1005), (7, 1006), (8, 1006), (9, 1006)]"

text \<open>
  C4: the semaphore keeps at most three requests in flight, but the spacing of the starts
  does not hold between tasks. A crawl of depth 1 from a seed with nine children issues ten
  requests, the seed's at time 1000, answered at 1001. The tasks of the first three children
  then enter \<^verbatim>\<open>wait_for_rate_limit\<close>, all find the last request one second old, all sleep
  one second, and all start their request at 1002; the next three start together at 1004,
  the last three at 1006.
\<close>

theorem requests_start_together:
  "starts (limiter_run ten_requests (limiter_start (init ''papers'' None) 10)) =
     [1000, 1002, 1002, 1002, 1004, 1004, 1004, 1006, 1006, 1006] \<and>
   request_interval (init ''papers'' None) = 2"
  by (simp add: ten_requests_def limiter_run_def limiter_step_def limiter_start_def admit_def
      init_def Let_def eval_nat_numeral)

end
